theory Spec2Isabelle
  imports Main
begin

section \<open>Status lexicons and values\<close>

text \<open>
  Modelled from the spec: the status lexicons of \<^verbatim>\<open>utils/enums\<close>, a file that is not among the
  sources. The task statuses are the constants of \<^verbatim>\<open>TASK_STATUS_enum\<close>, the workflow statuses
  those of \<^verbatim>\<open>WORKFLOW_STATUS_enum\<close> (prefixed, since \<^verbatim>\<open>BLOCKED\<close> and \<^verbatim>\<open>PAUSED\<close> occur in both).
\<close>

datatype task_status =
  TODO | DOING | BLOCKED | REVISE | DONE | AWAITING_VALIDATION | VALIDATED | ABORTED
  | PAUSED | RESUMED

datatype workflow_status =
  WORKFLOW_INITIAL | WORKFLOW_RUNNING | WORKFLOW_PAUSED | WORKFLOW_STOPPING | WORKFLOW_STOPPED
  | WORKFLOW_ERRORED | WORKFLOW_BLOCKED | WORKFLOW_FINISHED

datatype feedback_status = PENDING | PROCESSED

datatype log_type = WorkflowStatusUpdate | TaskStatusUpdate | AgentStatusUpdate

text \<open>
  JavaScript values, for the fields whose type the code does not fix: a task's result
  ("any serializable"), the env and inputs mappings, and every time field, which holds a
  number until \<^verbatim>\<open>getCleanedState\<close> overwrites it with a string. A field that an object does
  not have reads as \<open>JUndefined\<close>. \<open>JNumber n\<close> is the number whose value is the integer
  \<open>n\<close>; the other numbers are \<^verbatim>\<open>NaN\<close>, the two infinities and the fractions, \<open>Fraction m k\<close>
  being \<open>m / 2 ^ k\<close>.
\<close>

datatype other_number = NaN | PositiveInfinity | NegativeInfinity | Fraction int nat

datatype js_value =
  JUndefined | JNull | JBoolean bool | JNumber int | JOtherNumber other_number | JString string
  | JArray "js_value list" | JObject "(string \<times> js_value) list"

text \<open>\<^verbatim>\<open>typeof v === 'object'\<close>: true of objects, arrays and \<^verbatim>\<open>null\<close>.\<close>

fun typeof_object :: "js_value \<Rightarrow> bool" where
  "typeof_object JNull = True"
| "typeof_object (JArray _) = True"
| "typeof_object (JObject _) = True"
| "typeof_object _ = False"

text \<open>The value \<^verbatim>\<open>'Unknown'\<close> that \<^verbatim>\<open>prepareNewLog\<close> writes where a log has no task.\<close>

datatype 'a or_unknown = Known 'a | Unknown

section \<open>The data model of the team store\<close>

record llm_config =
  provider :: string
  model :: string
  apiKey :: string

record agent_instance =
  instance_id :: string
  instance_env :: js_value
  instance_llmConfig :: "llm_config option"
  interactionsHistory :: "string list"
  lastFeedbackMessage :: "string option"
  currentIterations :: nat

record agent =
  agent_id :: string
  agent_name :: string
  agent_status :: string
  agent_env :: js_value
  agent_llmConfig :: "llm_config option"
  agentInstance :: "agent_instance option"

record feedback =
  feedback_content :: string
  feedback_status :: feedback_status
  feedback_timestamp :: js_value

record task =
  task_id :: string
  description :: string
  task_status :: task_status
  dependsOn :: "string list option"
  task_agent :: "agent option"
  result :: js_value
  isDeliverable :: bool
  allowParallelExecution :: "bool option"
  referenceId :: "string option"
  feedbackHistory :: "feedback list option"
  task_duration :: js_value
  task_endTime :: js_value
  task_startTime :: js_value
  task_hooks :: js_value
  task_workflowInternalMemory :: js_value
  task_inputs :: js_value
  interpolatedTaskDescription :: "string option"

text \<open>
  The metadata of a log is free-form; the fields the store reads or overwrites are named,
  the others are kept as a list of entries.
\<close>

record metadata =
  metadata_result :: js_value
  metadata_feedback :: "feedback option"
  metadata_duration :: js_value
  metadata_endTime :: js_value
  metadata_startTime :: js_value
  metadata_rest :: "(string \<times> js_value) list"

record log =
  log_timestamp :: js_value
  log_task :: "task option"
  log_agent :: "agent option"
  agentName :: "string option"
  taskTitle :: "string option"
  logDescription :: string
  taskStatus :: "task_status or_unknown option"
  agentStatus :: "string option"
  workflowStatus :: "workflow_status option"
  log_metadata :: "metadata option"
  logType :: log_type

datatype strategy = ManagerLLMStrategy | DeterministicExecutionStrategy

record store =
  teamWorkflowStatus :: workflow_status
  workflowResult :: js_value
  name :: string
  agents :: "agent list"
  tasks :: "task list"
  workflowLogs :: "log list"
  inputs :: js_value
  workflowContext :: string
  workflowInternalMemory :: js_value
  env :: js_value
  logLevel :: "string option"
  flowType :: js_value
  workflowExecutionStrategy :: "strategy option"
  workflowController :: js_value
  maxConcurrency :: nat
  managerWithLLM :: bool
  taskQueue :: "nat option"
  hooks :: js_value

datatype js_error = TypeError

text \<open>
  What an action hands to code that is not among the sources: the agent's work on a task
  (\<^verbatim>\<open>agent.workOnTask(task, inputs, context)\<close> and
  \<^verbatim>\<open>agent.workOnFeedback(task, feedbackHistory, context)\<close>), the sequential strategy's queue,
  the completion handler of the task store and the strategy's start. Each is recorded as an
  effect, in the order of the calls; what the callee does to the store afterwards is not
  part of the action. A promise that is rejected and that nobody awaits is recorded too.
  Calls of the logger and of telemetry are left out.
\<close>

datatype effect =
  AgentWorkOnTask agent task js_value js_value
  | AgentWorkOnFeedback agent task "feedback list" js_value
  | UnhandledRejection js_error
  | QueuePush task
  | HandleTaskCompleted "agent option" task js_value
  | StartExecution strategy

section \<open>Array helpers\<close>

text \<open>\<^verbatim>\<open>Array.prototype.findIndex\<close>: the first index whose element satisfies the test; \<open>None\<close> is \<open>-1\<close>.\<close>

fun findIndex :: "('a \<Rightarrow> bool) \<Rightarrow> 'a list \<Rightarrow> nat option" where
  "findIndex p [] = None"
| "findIndex p (x # xs) =
     (if p x then Some 0 else (case findIndex p xs of None \<Rightarrow> None | Some i \<Rightarrow> Some (Suc i)))"

section \<open>Status mutators of the store\<close>

definition updateTaskStatus :: "string \<Rightarrow> task_status \<Rightarrow> store \<Rightarrow> store" where
  "updateTaskStatus taskId status state =
     (let updatedTasks =
        map (\<lambda>task. if task_id task = taskId then task\<lparr>task_status := status\<rparr> else task)
          (tasks state)
      in state\<lparr>tasks := updatedTasks\<rparr>)"

definition updateStatusOfMultipleTasks :: "string list \<Rightarrow> task_status \<Rightarrow> store \<Rightarrow> store" where
  "updateStatusOfMultipleTasks taskIds status state =
     (let updatedTasks =
        map (\<lambda>task. if task_id task \<in> set taskIds then task\<lparr>task_status := status\<rparr> else task)
          (tasks state)
      in state\<lparr>tasks := updatedTasks\<rparr>)"

text \<open>
  The property "a log entry was appended": the logs after are the logs before followed by
  exactly one entry.
\<close>

definition appends_one_log :: "store \<Rightarrow> store \<Rightarrow> bool" where
  "appends_one_log before after \<longleftrightarrow>
     length (workflowLogs after) = Suc (length (workflowLogs before))
     \<and> take (length (workflowLogs before)) (workflowLogs after) = workflowLogs before"

section \<open>Hierarchical strategy\<close>

definition getTaskDependencies :: "task \<Rightarrow> task list \<Rightarrow> task list" where
  "getTaskDependencies task allTasks =
     (case dependsOn task of
        None \<Rightarrow> []
      | Some ids \<Rightarrow>
          if length ids = 0 then [] else filter (\<lambda>t. task_id t \<in> set ids) allTasks)"


definition getReadyTasks :: "task list \<Rightarrow> task list" where
  "getReadyTasks allTasks =
     filter (\<lambda>task.
        if task_status task \<noteq> TODO then False
        else (let deps = getTaskDependencies task allTasks
              in length deps = 0 \<or> list_all (\<lambda>dep. task_status dep = DONE) deps))
       allTasks"



section \<open>Sequential strategy\<close>

text \<open>
  \<^verbatim>\<open>SequentialExecutionStrategy.execute\<close>. In the \<open>REVISE\<close> case the loop starts at
  \<^verbatim>\<open>taskIndex + 1\<close>, which is \<open>0\<close> when \<open>findIndex\<close> found nothing.
\<close>

fun sequential_handle_changed ::
  "task list \<Rightarrow> task list \<Rightarrow> store \<times> effect list \<Rightarrow> store \<times> effect list" where
  "sequential_handle_changed [] allTasks (state, effects) = (state, effects)"
| "sequential_handle_changed (changedTask # rest) allTasks (state, effects) =
     (case task_status changedTask of
        DOING \<Rightarrow>
          sequential_handle_changed rest allTasks (state, effects @ [QueuePush changedTask])
      | REVISE \<Rightarrow>
          (let taskIndex = findIndex (\<lambda>t. task_id t = task_id changedTask) allTasks;
               first = (case taskIndex of None \<Rightarrow> 0 | Some i \<Rightarrow> i + 1);
               state1 = fold (\<lambda>t. updateTaskStatus (task_id t) TODO) (drop first allTasks) state
           in sequential_handle_changed rest allTasks
                (updateTaskStatus (task_id changedTask) DOING state1, effects))
      | DONE \<Rightarrow>
          (let nextTask = find (\<lambda>t. task_status t = TODO) (tasks state)
           in sequential_handle_changed rest allTasks
                (case nextTask of
                   None \<Rightarrow> (state, effects)
                 | Some t \<Rightarrow> (updateTaskStatus (task_id t) DOING state, effects)))
      | _ \<Rightarrow> sequential_handle_changed rest allTasks (state, effects))"

definition sequential_execute ::
  "task list \<Rightarrow> task list \<Rightarrow> store \<Rightarrow> store \<times> effect list" where
  "sequential_execute changedTasks allTasks state =
     sequential_handle_changed changedTasks allTasks (state, [])"

section \<open>Store actions\<close>

text \<open>
  \<^verbatim>\<open>Date.now()\<close> is an argument of every action that reads the clock, one argument per
  call. \<^verbatim>\<open>getTaskTitleForLogs\<close> of \<^verbatim>\<open>utils/tasks\<close>, a file that is not among the sources,
  is an argument too.
\<close>

definition prepareNewLog ::
  "int \<Rightarrow> (task \<Rightarrow> string) \<Rightarrow> agent option \<Rightarrow> task option \<Rightarrow> string \<Rightarrow> metadata option
     \<Rightarrow> log_type \<Rightarrow> log" where
  "prepareNewLog now getTaskTitleForLogs agent task descr metadata kind =
     \<lparr> log_timestamp = JNumber now,
       log_task = task,
       log_agent = agent,
       agentName = Some (case agent of Some a \<Rightarrow> agent_name a | None \<Rightarrow> ''Unknown Agent''),
       taskTitle = Some (case task of Some t \<Rightarrow> getTaskTitleForLogs t | None \<Rightarrow> ''Untitled Task''),
       logDescription = descr,
       taskStatus = Some (case task of Some t \<Rightarrow> Known (task_status t) | None \<Rightarrow> Unknown),
       agentStatus = Some (case agent of Some a \<Rightarrow> agent_status a | None \<Rightarrow> ''Unknown''),
       workflowStatus = None,
       log_metadata = metadata,
       logType = kind \<rparr>"

text \<open>A log written as an object literal by a workflow action: no task or agent status.\<close>

definition workflowLog ::
  "int \<Rightarrow> task option \<Rightarrow> agent option \<Rightarrow> string \<Rightarrow> workflow_status \<Rightarrow> metadata \<Rightarrow> log" where
  "workflowLog now task agent descr status metadata =
     \<lparr> log_timestamp = JNumber now,
       log_task = task,
       log_agent = agent,
       agentName = None,
       taskTitle = None,
       logDescription = descr,
       taskStatus = None,
       agentStatus = None,
       workflowStatus = Some status,
       log_metadata = Some metadata,
       logType = WorkflowStatusUpdate \<rparr>"

definition emptyMetadata :: metadata where
  "emptyMetadata =
     \<lparr> metadata_result = JUndefined, metadata_feedback = None, metadata_duration = JUndefined,
       metadata_endTime = JUndefined, metadata_startTime = JUndefined, metadata_rest = [] \<rparr>"

text \<open>The truth value of a JavaScript value in a condition.\<close>

fun truthy :: "js_value \<Rightarrow> bool" where
  "truthy JUndefined = False"
| "truthy JNull = False"
| "truthy (JBoolean b) = b"
| "truthy (JNumber n) = (n \<noteq> 0)"
| "truthy (JOtherNumber x) = (x \<noteq> NaN)"
| "truthy (JString s) = (s \<noteq> [])"
| "truthy (JArray _) = True"
| "truthy (JObject _) = True"

definition setInputs :: "js_value \<Rightarrow> store \<Rightarrow> store" where
  "setInputs i state = state\<lparr>inputs := i\<rparr>"

text \<open>
  \<^verbatim>\<open>resetWorkflowStateAction\<close> resets every agent in place. Modelled from the spec:
  \<^verbatim>\<open>Agent.setStatus\<close>, whose class is not among the sources, sets the agent's mutable
  status. Writing to \<^verbatim>\<open>agent.agentInstance\<close> raises a \<^verbatim>\<open>TypeError\<close> when the agent has no
  instance. The agents that tasks and logs hold are copies here, where the code shares the
  objects; nothing below reads an agent of a task after a reset.
\<close>

definition resetAgent :: "agent \<Rightarrow> js_error + agent" where
  "resetAgent a =
     (case agentInstance a of
        None \<Rightarrow> Inl TypeError
      | Some i \<Rightarrow>
          Inr (a\<lparr>agent_status := ''INITIAL'',
                 agentInstance :=
                   Some (i\<lparr>interactionsHistory := [], lastFeedbackMessage := None,
                           currentIterations := 0\<rparr>)\<rparr>))"

fun resetAgents :: "agent list \<Rightarrow> js_error + agent list" where
  "resetAgents [] = Inr []"
| "resetAgents (a # as) =
     (case resetAgent a of
        Inl e \<Rightarrow> Inl e
      | Inr a' \<Rightarrow> (case resetAgents as of Inl e \<Rightarrow> Inl e | Inr as' \<Rightarrow> Inr (a' # as')))"

definition resetWorkflowStateAction :: "store \<Rightarrow> js_error + store" where
  "resetWorkflowStateAction state =
     (let resetTasks = map (\<lambda>task. task\<lparr>task_status := TODO\<rparr>) (tasks state)
      in case resetAgents (agents state) of
           Inl e \<Rightarrow> Inl e
         | Inr resetAgentList \<Rightarrow>
             Inr (state\<lparr>tasks := resetTasks,
                        agents := resetAgentList,
                        workflowLogs := [],
                        workflowContext := [],
                        workflowResult := JNull,
                        workflowInternalMemory := JObject [],
                        teamWorkflowStatus := WORKFLOW_INITIAL\<rparr>))"

definition createWorkflowExecutionStrategy :: "store \<Rightarrow> strategy" where
  "createWorkflowExecutionStrategy state =
     (if managerWithLLM state then ManagerLLMStrategy else DeterministicExecutionStrategy)"

text \<open>
  \<^verbatim>\<open>startWorkflow\<close>. The strategy classes are not among the sources: the concurrency the
  strategy asks for is an argument, and its \<^verbatim>\<open>startExecution\<close> is the effect returned with
  the store it is called on. The action has no test of \<open>teamWorkflowStatus\<close>.
\<close>

definition startWorkflow ::
  "(strategy \<Rightarrow> store \<Rightarrow> nat) \<Rightarrow> int \<Rightarrow> js_value \<Rightarrow> store \<Rightarrow> js_error + store \<times> effect list"
  where
  "startWorkflow getConcurrencyForTaskQueue now inputsArg state =
     (case resetWorkflowStateAction state of
        Inl e \<Rightarrow> Inl e
      | Inr state1 \<Rightarrow>
          (let state2 = (if truthy inputsArg then setInputs inputsArg state1 else state1);
               initialLog =
                 workflowLog now None None
                   (''Workflow initiated for team *'' @ name state2 @ ''*.'')
                   WORKFLOW_RUNNING
                   (emptyMetadata\<lparr>metadata_rest :=
                      [(''message'', JString ''Workflow has been initialized with input settings.''),
                       (''inputs'', inputsArg)]\<rparr>);
               strategy = createWorkflowExecutionStrategy state2;
               state3 = state2\<lparr>workflowLogs := workflowLogs state2 @ [initialLog],
                               teamWorkflowStatus := WORKFLOW_RUNNING,
                               workflowExecutionStrategy := Some strategy\<rparr>;
               state4 = state3\<lparr>taskQueue := Some (getConcurrencyForTaskQueue strategy state3)\<rparr>
           in Inr (state4, [StartExecution strategy])))"

definition provideFeedback ::
  "int \<Rightarrow> int \<Rightarrow> int \<Rightarrow> (task \<Rightarrow> string) \<Rightarrow> string \<Rightarrow> string \<Rightarrow> store \<Rightarrow> store" where
  "provideFeedback now1 now2 now3 getTaskTitleForLogs taskId feedbackContent state =
     (case findIndex (\<lambda>t. task_id t = taskId) (tasks state) of
        None \<Rightarrow> state
      | Some taskIndex \<Rightarrow>
          (let task = tasks state ! taskIndex;
               newFeedback =
                 \<lparr> feedback_content = feedbackContent, feedback_status = PENDING,
                   feedback_timestamp = JNumber now1 \<rparr>;
               newWorkflowLog =
                 workflowLog now2 (Some task) (task_agent task)
                   ''Workflow running again due to feedback on task.''
                   WORKFLOW_RUNNING
                   (emptyMetadata\<lparr>metadata_feedback := Some newFeedback\<rparr>);
               updatedTask =
                 task\<lparr>feedbackHistory :=
                        Some ((case feedbackHistory task of None \<Rightarrow> [] | Some h \<Rightarrow> h)
                              @ [newFeedback]),
                      task_status := REVISE\<rparr>;
               newTaskLog =
                 prepareNewLog now3 getTaskTitleForLogs (task_agent updatedTask) (Some updatedTask)
                   (''Task with feedback: '' @ getTaskTitleForLogs updatedTask @ ''.'')
                   (Some (emptyMetadata\<lparr>metadata_feedback := Some newFeedback\<rparr>))
                   TaskStatusUpdate
           in state\<lparr>teamWorkflowStatus := WORKFLOW_RUNNING,
                     workflowLogs := workflowLogs state @ [newWorkflowLog, newTaskLog],
                     tasks := map (\<lambda>t. if task_id t = taskId then updatedTask else t)
                                (tasks state)\<rparr>))"

text \<open>
  \<^verbatim>\<open>validateTask\<close> returns \<^verbatim>\<open>null\<close> where it refuses and nothing (\<open>JUndefined\<close>) where it
  goes through. \<^verbatim>\<open>handleTaskCompleted\<close> belongs to the task store, which is not among the
  sources: the call is the effect returned.
\<close>

definition validateTask ::
  "int \<Rightarrow> int \<Rightarrow> (task \<Rightarrow> string) \<Rightarrow> string \<Rightarrow> store \<Rightarrow> js_value \<times> store \<times> effect list" where
  "validateTask now1 now2 getTaskTitleForLogs taskId state =
     (case find (\<lambda>t. task_id t = taskId) (tasks state) of
        None \<Rightarrow> (JNull, state, [])
      | Some task \<Rightarrow>
          if task_status task \<noteq> AWAITING_VALIDATION then (JNull, state, [])
          else
            (let updatedTask = task\<lparr>task_status := VALIDATED\<rparr>;
                 newWorkflowLog =
                   workflowLog now1 (Some updatedTask) (task_agent updatedTask)
                     ''Workflow running cause a task was validated.''
                     WORKFLOW_RUNNING emptyMetadata;
                 newTaskLog =
                   prepareNewLog now2 getTaskTitleForLogs (task_agent updatedTask)
                     (Some updatedTask)
                     (''Task validated: '' @ getTaskTitleForLogs updatedTask @ ''.'')
                     (Some emptyMetadata) TaskStatusUpdate;
                 state1 =
                   state\<lparr>tasks := map (\<lambda>t. if task_id t = taskId then updatedTask else t)
                                     (tasks state),
                         workflowLogs := workflowLogs state @ [newWorkflowLog, newTaskLog],
                         teamWorkflowStatus := WORKFLOW_RUNNING\<rparr>
             in (JUndefined, state1,
                 [HandleTaskCompleted (task_agent updatedTask) updatedTask (result updatedTask)])))"

section \<open>Hierarchical strategy: execute\<close>

text \<open>
  \<^verbatim>\<open>execute\<close> calls \<^verbatim>\<open>_executeTask\<close>, which calls \<^verbatim>\<open>workOnTask\<close> of the store, and
  \<^verbatim>\<open>workOnTask\<close> writes into the task object it is given (\<^verbatim>\<open>task.status = DOING\<close>). Who
  sees that write depends on who holds the object, so the task objects are kept by
  reference here: a reference is an index into \<open>taskObjects\<close>, the objects that the
  arguments of \<^verbatim>\<open>execute\<close> refer to. The store is kept by value, as everywhere else;
  \<open>storeRefs\<close> tells, for each slot of its \<open>tasks\<close> array, which of the objects the slot
  holds (\<open>None\<close>: an object that only the store holds), and \<open>logRefs\<close> tells the same of
  the \<open>task\<close> of each log.
\<close>

type_synonym ref = nat

record world =
  taskObjects :: "task list"
  teamStore :: store
  storeRefs :: "ref option list"
  logRefs :: "ref option list"

text \<open>
  A write into the object \<open>r\<close>: the object changes, and with it every slot of the store
  and every log that holds this very object.
\<close>

definition writeTask :: "ref \<Rightarrow> (task \<Rightarrow> task) \<Rightarrow> world \<Rightarrow> world" where
  "writeTask r f w =
     (let written = f (taskObjects w ! r);
          ts = tasks (teamStore w);
          ls = workflowLogs (teamStore w)
      in w\<lparr>taskObjects := (taskObjects w)[r := written],
           teamStore := (teamStore w)
             \<lparr>tasks := map (\<lambda>j. if storeRefs w ! j = Some r then written else ts ! j)
                         [0..<length ts],
              workflowLogs :=
                map (\<lambda>j. if logRefs w ! j = Some r then (ls ! j)\<lparr>log_task := Some written\<rparr>
                          else ls ! j)
                  [0..<length ls]\<rparr>\<rparr>)"


text \<open>
  The code that is not among the sources, as arguments: \<^verbatim>\<open>Date.now()\<close> at the \<open>k\<close>-th call
  of \<^verbatim>\<open>_executeTask\<close> of a run, \<^verbatim>\<open>getTaskTitleForLogs\<close> and \<^verbatim>\<open>interpolateTaskDescription\<close>
  of \<^verbatim>\<open>utils/tasks\<close>, and \<^verbatim>\<open>cloneAgent\<close> of \<^verbatim>\<open>utils/agents\<close>.
\<close>

record externals =
  ext_now :: "nat \<Rightarrow> int"
  ext_getTaskTitleForLogs :: "task \<Rightarrow> string"
  ext_interpolateTaskDescription :: "string \<Rightarrow> js_value \<Rightarrow> string"
  ext_cloneAgent :: "agent \<Rightarrow> agent"

text \<open>
  \<^verbatim>\<open>workOnTask(agent, task, context)\<close> of the store, up to the call of the agent. Without an
  agent nothing happens. Otherwise the status is written into the task, the log of the
  start is appended (it holds the task object), the inputs and the interpolated
  description are written into the task, and the agent is called: on the feedback when
  some feedback is pending, on the task otherwise. Reading \<^verbatim>\<open>task.feedbackHistory.filter\<close>
  of a task without feedback history raises a \<^verbatim>\<open>TypeError\<close>.
\<close>

definition workOnTask ::
  "externals \<Rightarrow> nat \<Rightarrow> agent option \<Rightarrow> ref \<Rightarrow> js_value \<Rightarrow> world
     \<Rightarrow> js_error option \<times> world \<times> effect list" where
  "workOnTask ext k agent r context w =
     (case agent of
        None \<Rightarrow> (None, w, [])
      | Some a \<Rightarrow>
          (let w1 = writeTask r (\<lambda>t. t\<lparr>task_status := DOING\<rparr>) w;
               task1 = taskObjects w1 ! r;
               newLog =
                 prepareNewLog (ext_now ext k) (ext_getTaskTitleForLogs ext) (Some a) (Some task1)
                   (''Task: '' @ ext_getTaskTitleForLogs ext task1 @ '' started.'')
                   (Some emptyMetadata) TaskStatusUpdate;
               w2 = w1\<lparr>teamStore :=
                         (teamStore w1)\<lparr>workflowLogs := workflowLogs (teamStore w1) @ [newLog]\<rparr>,
                       logRefs := logRefs w1 @ [Some r]\<rparr>;
               w3 = writeTask r (\<lambda>t. t\<lparr>task_inputs := inputs (teamStore w2)\<rparr>) w2;
               w4 = writeTask r
                      (\<lambda>t. t\<lparr>interpolatedTaskDescription :=
                              Some (ext_interpolateTaskDescription ext (description t)
                                      (inputs (teamStore w3)))\<rparr>) w3;
               task4 = taskObjects w4 ! r
           in case feedbackHistory task4 of
                None \<Rightarrow> (Some TypeError, w4, [])
              | Some history \<Rightarrow>
                  if length (filter (\<lambda>f. feedback_status f = PENDING) history) > 0
                  then (None, w4, [AgentWorkOnFeedback a task4 history context])
                  else (None, w4, [AgentWorkOnTask a task4 (inputs (teamStore w4)) context])))"

text \<open>
  \<^verbatim>\<open>_isAgentBusy(agent, tasks)\<close> of the base class. Without an agent, \<^verbatim>\<open>agent.id\<close> raises a
  \<^verbatim>\<open>TypeError\<close> at the first task that has an agent.
\<close>

definition isAgentBusy_base :: "agent option \<Rightarrow> task list \<Rightarrow> js_error + bool" where
  "isAgentBusy_base agent ts =
     (case agent of
        Some a \<Rightarrow>
          Inr (list_ex (\<lambda>t. case task_agent t of
                              None \<Rightarrow> False
                            | Some ta \<Rightarrow> agent_id ta = agent_id a \<and> task_status t = DOING) ts)
      | None \<Rightarrow> if list_ex (\<lambda>t. task_agent t \<noteq> None) ts then Inl TypeError else Inr False)"

text \<open>
  \<^verbatim>\<open>_executeTask(task)\<close> of the base class: the agent of the task, or a clone of it when it
  is busy, works on the task, with no context.
\<close>

definition executeTask ::
  "externals \<Rightarrow> nat \<Rightarrow> ref \<Rightarrow> world \<Rightarrow> js_error option \<times> world \<times> effect list" where
  "executeTask ext k r w =
     (let task = taskObjects w ! r
      in case isAgentBusy_base (task_agent task) (tasks (teamStore w)) of
           Inl e \<Rightarrow> (Some e, w, [])
         | Inr busy \<Rightarrow>
             (let agent = (if busy then map_option (ext_cloneAgent ext) (task_agent task)
                           else task_agent task)
              in workOnTask ext k agent r JUndefined w))"


text \<open>
  What is left of a call that nobody awaits: when it failed, a rejected promise.
\<close>

definition rejection :: "js_error option \<Rightarrow> effect list" where
  "rejection err = (case err of None \<Rightarrow> [] | Some e \<Rightarrow> [UnhandledRejection e])"

text \<open>
  The \<^verbatim>\<open>forEach\<close> over the executable tasks: \<^verbatim>\<open>_executeTask\<close> is called on one after the
  other and not awaited, so an error in one call is a rejected promise and the next call
  goes ahead.
\<close>

fun hierarchy_start_tasks ::
  "externals \<Rightarrow> ref list \<Rightarrow> nat \<Rightarrow> world \<Rightarrow> effect list \<Rightarrow> world \<times> effect list" where
  "hierarchy_start_tasks ext [] k w effects = (w, effects)"
| "hierarchy_start_tasks ext (r # rest) k w effects =
     (case executeTask ext k r w of
        (err, w1, effects1) \<Rightarrow>
          hierarchy_start_tasks ext rest (Suc k) w1 (effects @ effects1 @ rejection err))"





section \<open>Context derived from the logs\<close>

record context_entry =
  taskDescription :: string
  entry_result :: js_value
  entry_index :: nat

text \<open>
  \<^verbatim>\<open>Map.prototype.set\<close> on a map kept in insertion order: a key that is present keeps its
  place and takes the new value, a new key goes to the end.
\<close>

fun map_set :: "'k \<Rightarrow> 'v \<Rightarrow> ('k \<times> 'v) list \<Rightarrow> ('k \<times> 'v) list" where
  "map_set k v [] = [(k, v)]"
| "map_set k v ((k', v') # m) = (if k' = k then (k, v) # m else (k', v') # map_set k v m)"

text \<open>
  The loop over the logs. Reading \<^verbatim>\<open>log.task.id\<close> of a log without a task, or
  \<^verbatim>\<open>log.metadata.result\<close> of a log without metadata, raises a \<^verbatim>\<open>TypeError\<close>.
\<close>

fun collectTaskResults ::
  "task list \<Rightarrow> nat \<Rightarrow> log list \<Rightarrow> (string \<times> context_entry) list
     \<Rightarrow> js_error + (string \<times> context_entry) list" where
  "collectTaskResults allTasks currentTaskIndex [] taskResults = Inr taskResults"
| "collectTaskResults allTasks currentTaskIndex (l # logs) taskResults =
     (if logType l = TaskStatusUpdate \<and> taskStatus l = Some (Known DONE) then
        (case log_task l of
           None \<Rightarrow> Inl TypeError
         | Some logTask \<Rightarrow>
             (case findIndex (\<lambda>task. task_id task = task_id logTask) allTasks of
                None \<Rightarrow> collectTaskResults allTasks currentTaskIndex logs taskResults
              | Some taskIndex \<Rightarrow>
                  if taskIndex < currentTaskIndex then
                    (case log_metadata l of
                       None \<Rightarrow> Inl TypeError
                     | Some md \<Rightarrow>
                         collectTaskResults allTasks currentTaskIndex logs
                           (map_set (task_id logTask)
                              \<lparr> taskDescription = description logTask,
                                entry_result = metadata_result md,
                                entry_index = taskIndex \<rparr>
                              taskResults))
                  else collectTaskResults allTasks currentTaskIndex logs taskResults))
      else collectTaskResults allTasks currentTaskIndex logs taskResults)"

text \<open>
  The string a template literal makes of a value that is not an object. The string of a
  number is made by \<^verbatim>\<open>Number.prototype.toString\<close>, an argument here.
\<close>

fun primitiveToString :: "(js_value \<Rightarrow> string) \<Rightarrow> js_value \<Rightarrow> string" where
  "primitiveToString numberToString JUndefined = ''undefined''"
| "primitiveToString numberToString (JBoolean b) = (if b then ''true'' else ''false'')"
| "primitiveToString numberToString (JNumber n) = numberToString (JNumber n)"
| "primitiveToString numberToString (JOtherNumber x) = numberToString (JOtherNumber x)"
| "primitiveToString numberToString (JString s) = s"

text \<open>\<^verbatim>\<open>JSON.stringify\<close> is an argument: \<open>stringify\<close>.\<close>

definition renderEntry ::
  "(js_value \<Rightarrow> string) \<Rightarrow> (js_value \<Rightarrow> string) \<Rightarrow> context_entry \<Rightarrow> string" where
  "renderEntry numberToString stringify e =
     ''Task: '' @ taskDescription e @ [CHR 0x0A] @ ''Result: ''
     @ (if typeof_object (entry_result e) then stringify (entry_result e)
        else primitiveToString numberToString (entry_result e))
     @ [CHR 0x0A]"

text \<open>\<^verbatim>\<open>Array.prototype.join\<close> on strings.\<close>

fun join :: "string \<Rightarrow> string list \<Rightarrow> string" where
  "join sep [] = []"
| "join sep [x] = x"
| "join sep (x # y # ys) = x @ sep @ join sep (y # ys)"

text \<open>
  \<^verbatim>\<open>deriveContextFromLogs\<close>. The sort of the entries by \<open>index\<close> is stable, as
  \<^verbatim>\<open>Array.prototype.sort\<close> is.
\<close>

definition deriveContextFromLogs ::
  "(js_value \<Rightarrow> string) \<Rightarrow> (js_value \<Rightarrow> string) \<Rightarrow> log list \<Rightarrow> string \<Rightarrow> store
     \<Rightarrow> js_error + string" where
  "deriveContextFromLogs numberToString stringify logs currentTaskId state =
     (case findIndex (\<lambda>task. task_id task = currentTaskId) (tasks state) of
        None \<Rightarrow> Inr []
      | Some currentTaskIndex \<Rightarrow>
          (case collectTaskResults (tasks state) currentTaskIndex logs [] of
             Inl e \<Rightarrow> Inl e
           | Inr taskResults \<Rightarrow>
               Inr (join [CHR 0x0A]
                      (map (renderEntry numberToString stringify)
                         (sort_key entry_index (map snd taskResults))))))"

text \<open>
  The claim's reading of the context, from the spec's words: one entry for every task
  that reached \<open>DONE\<close> and precedes the current task, in declaration order. A task reached
  \<open>DONE\<close> when the logs hold a \<open>DONE\<close> log of it; its entry is taken from the latest of
  them.
\<close>

definition isDoneLogOf :: "string \<Rightarrow> log \<Rightarrow> bool" where
  "isDoneLogOf taskId l \<longleftrightarrow>
     logType l = TaskStatusUpdate \<and> taskStatus l = Some (Known DONE)
     \<and> (case log_task l of None \<Rightarrow> False | Some t \<Rightarrow> task_id t = taskId)"

definition reachedDone :: "log list \<Rightarrow> task \<Rightarrow> bool" where
  "reachedDone logs t \<longleftrightarrow> list_ex (isDoneLogOf (task_id t)) logs"

definition latestDoneLog :: "log list \<Rightarrow> string \<Rightarrow> log" where
  "latestDoneLog logs taskId = last (filter (isDoneLogOf taskId) logs)"

definition loggedDescription :: "log \<Rightarrow> string" where
  "loggedDescription l = (case log_task l of Some t \<Rightarrow> description t | None \<Rightarrow> [])"

definition loggedResult :: "log \<Rightarrow> js_value" where
  "loggedResult l = (case log_metadata l of Some md \<Rightarrow> metadata_result md | None \<Rightarrow> JUndefined)"

text \<open>
  The text of an entry, \<^verbatim>\<open>Task: {description}\nResult: {result}\n\<close>, and the text of a
  result: a string stands as it is, an object (arrays and \<^verbatim>\<open>null\<close> are objects) is
  serialized as JSON, and the other values read as JavaScript prints them.
\<close>

definition entryText :: "string \<Rightarrow> string \<Rightarrow> string" where
  "entryText d r = ''Task: '' @ d @ [CHR 0x0A] @ ''Result: '' @ r @ [CHR 0x0A]"

fun resultText :: "(js_value \<Rightarrow> string) \<Rightarrow> (js_value \<Rightarrow> string) \<Rightarrow> js_value \<Rightarrow> string" where
  "resultText numberToString stringify (JString s) = s"
| "resultText numberToString stringify (JObject entries) = stringify (JObject entries)"
| "resultText numberToString stringify (JArray items) = stringify (JArray items)"
| "resultText numberToString stringify JNull = stringify JNull"
| "resultText numberToString stringify JUndefined = ''undefined''"
| "resultText numberToString stringify (JBoolean True) = ''true''"
| "resultText numberToString stringify (JBoolean False) = ''false''"
| "resultText numberToString stringify (JNumber n) = numberToString (JNumber n)"
| "resultText numberToString stringify (JOtherNumber x) = numberToString (JOtherNumber x)"

definition contextEntries ::
  "(js_value \<Rightarrow> string) \<Rightarrow> (js_value \<Rightarrow> string) \<Rightarrow> log list \<Rightarrow> task list \<Rightarrow> nat
     \<Rightarrow> string list" where
  "contextEntries numberToString stringify logs allTasks currentTaskIndex =
     map (\<lambda>i. entryText
                 (loggedDescription (latestDoneLog logs (task_id (allTasks ! i))))
                 (resultText numberToString stringify
                    (loggedResult (latestDoneLog logs (task_id (allTasks ! i))))))
       (filter (\<lambda>i. reachedDone logs (allTasks ! i)) [0..<currentTaskIndex])"

text \<open>
  The entries as the loop of the code builds them, by index and by task id: the entry of
  a log, the entry of the latest \<open>DONE\<close> log of a task, and whether the first task with an
  id precedes the current task.
\<close>

definition entryOfLog :: "nat \<Rightarrow> log \<Rightarrow> context_entry" where
  "entryOfLog i l =
     \<lparr> taskDescription = (case log_task l of Some t \<Rightarrow> description t | None \<Rightarrow> []),
       entry_result = (case log_metadata l of Some md \<Rightarrow> metadata_result md | None \<Rightarrow> JUndefined),
       entry_index = i \<rparr>"

definition latestEntry :: "log list \<Rightarrow> task list \<Rightarrow> nat \<Rightarrow> context_entry" where
  "latestEntry logs allTasks i =
     entryOfLog i (last (filter (isDoneLogOf (task_id (allTasks ! i))) logs))"

definition precedes :: "task list \<Rightarrow> nat \<Rightarrow> string \<Rightarrow> bool" where
  "precedes allTasks currentTaskIndex taskId \<longleftrightarrow>
     (case findIndex (\<lambda>task. task_id task = taskId) allTasks of
        None \<Rightarrow> False
      | Some k \<Rightarrow> k < currentTaskIndex)"

definition latestDoneEntry :: "task list \<Rightarrow> log list \<Rightarrow> string \<Rightarrow> context_entry" where
  "latestDoneEntry allTasks logs taskId =
     entryOfLog
       (case findIndex (\<lambda>task. task_id task = taskId) allTasks of None \<Rightarrow> 0 | Some k \<Rightarrow> k)
       (last (filter (isDoneLogOf taskId) logs))"

text \<open>
  Logs as the store writes them: a \<open>DONE\<close> log of a task carries the task and metadata.
\<close>

definition wellFormedLogs :: "log list \<Rightarrow> bool" where
  "wellFormedLogs logs \<longleftrightarrow>
     list_all (\<lambda>l. logType l = TaskStatusUpdate \<and> taskStatus l = Some (Known DONE)
                 \<longrightarrow> log_task l \<noteq> None \<and> log_metadata l \<noteq> None) logs"

section \<open>The cleaned snapshot\<close>

definition REDACTED :: string where
  "REDACTED = ''[REDACTED]''"

text \<open>
  In the snapshot, \<open>None\<close> in an object field whose cleaner has an \<^verbatim>\<open>{}\<close> branch (llmConfig,
  agentInstance, a log's metadata, the metadata's feedback) is that empty object; in the
  agent of a task and in the task and agent of a log it is \<^verbatim>\<open>null\<close>.
\<close>

definition cleanLlmConfig :: "llm_config option \<Rightarrow> llm_config option" where
  "cleanLlmConfig c = (case c of Some cfg \<Rightarrow> Some (cfg\<lparr>apiKey := REDACTED\<rparr>) | None \<Rightarrow> None)"

definition cleanAgent :: "agent \<Rightarrow> agent" where
  "cleanAgent a =
     a\<lparr>agent_id := REDACTED,
       agent_env := JString REDACTED,
       agent_llmConfig := cleanLlmConfig (agent_llmConfig a),
       agentInstance :=
         (case agentInstance a of
            Some i \<Rightarrow>
              Some (i\<lparr>instance_id := REDACTED,
                      instance_env := JString REDACTED,
                      instance_llmConfig := cleanLlmConfig (instance_llmConfig i)\<rparr>)
          | None \<Rightarrow> None)\<rparr>"

definition cleanFeedback :: "feedback \<Rightarrow> feedback" where
  "cleanFeedback f = f\<lparr>feedback_timestamp := JString REDACTED\<rparr>"

text \<open>
  \<^verbatim>\<open>cleanTask\<close> drops \<^verbatim>\<open>hooks\<close> and \<^verbatim>\<open>workflowInternalMemory\<close>, and keeps
  \<^verbatim>\<open>allowParallelExecution\<close> and \<^verbatim>\<open>referenceId\<close> only when they are truthy.
\<close>

definition cleanTask :: "task \<Rightarrow> task" where
  "cleanTask t =
     t\<lparr>task_id := REDACTED,
       task_agent := (case task_agent t of Some a \<Rightarrow> Some (cleanAgent a) | None \<Rightarrow> None),
       task_duration := JString REDACTED,
       task_endTime := JString REDACTED,
       task_startTime := JString REDACTED,
       feedbackHistory :=
         Some (case feedbackHistory t of Some h \<Rightarrow> map cleanFeedback h | None \<Rightarrow> []),
       allowParallelExecution :=
         (if allowParallelExecution t = Some True then Some True else None),
       referenceId :=
         (case referenceId t of Some r \<Rightarrow> if r \<noteq> [] then Some r else None | None \<Rightarrow> None),
       task_hooks := JUndefined,
       task_workflowInternalMemory := JUndefined\<rparr>"

definition cleanMetadata :: "metadata \<Rightarrow> metadata" where
  "cleanMetadata md =
     md\<lparr>metadata_duration := JString REDACTED,
        metadata_endTime := JString REDACTED,
        metadata_startTime := JString REDACTED,
        metadata_feedback :=
          (case metadata_feedback md of Some f \<Rightarrow> Some (cleanFeedback f) | None \<Rightarrow> None)\<rparr>"

definition cleanLog :: "log \<Rightarrow> log" where
  "cleanLog l =
     l\<lparr>log_agent := (case log_agent l of Some a \<Rightarrow> Some (cleanAgent a) | None \<Rightarrow> None),
       log_task := (case log_task l of Some t \<Rightarrow> Some (cleanTask t) | None \<Rightarrow> None),
       log_timestamp := JString REDACTED,
       log_metadata := (case log_metadata l of Some md \<Rightarrow> Some (cleanMetadata md) | None \<Rightarrow> None)\<rparr>"

text \<open>The object \<^verbatim>\<open>getCleanedState\<close> returns: these nine fields and no other.\<close>

record cleaned_state =
  cleaned_teamWorkflowStatus :: workflow_status
  cleaned_workflowResult :: js_value
  cleaned_name :: string
  cleaned_agents :: "agent list"
  cleaned_tasks :: "task list"
  cleaned_workflowLogs :: "log list"
  cleaned_inputs :: js_value
  cleaned_workflowContext :: string
  cleaned_logLevel :: "string option"

definition getCleanedState :: "store \<Rightarrow> cleaned_state" where
  "getCleanedState state =
     \<lparr> cleaned_teamWorkflowStatus = teamWorkflowStatus state,
       cleaned_workflowResult = workflowResult state,
       cleaned_name = name state,
       cleaned_agents = map cleanAgent (agents state),
       cleaned_tasks = map cleanTask (tasks state),
       cleaned_workflowLogs = map cleanLog (workflowLogs state),
       cleaned_inputs = inputs state,
       cleaned_workflowContext = workflowContext state,
       cleaned_logLevel = logLevel state \<rparr>"

text \<open>What the snapshot promises of an agent, a task and a log.\<close>

definition llmConfigRedacted :: "llm_config option \<Rightarrow> bool" where
  "llmConfigRedacted c \<longleftrightarrow> (case c of Some cfg \<Rightarrow> apiKey cfg = REDACTED | None \<Rightarrow> True)"

definition agentRedacted :: "agent \<Rightarrow> bool" where
  "agentRedacted a \<longleftrightarrow>
     agent_id a = REDACTED \<and> agent_env a = JString REDACTED
     \<and> llmConfigRedacted (agent_llmConfig a)
     \<and> (case agentInstance a of
          Some i \<Rightarrow>
            instance_id i = REDACTED \<and> instance_env i = JString REDACTED
            \<and> llmConfigRedacted (instance_llmConfig i)
        | None \<Rightarrow> True)"

definition feedbackRedacted :: "feedback \<Rightarrow> bool" where
  "feedbackRedacted f \<longleftrightarrow> feedback_timestamp f = JString REDACTED"

definition taskRedacted :: "task \<Rightarrow> bool" where
  "taskRedacted t \<longleftrightarrow>
     task_id t = REDACTED
     \<and> (case task_agent t of Some a \<Rightarrow> agentRedacted a | None \<Rightarrow> True)
     \<and> task_duration t = JString REDACTED
     \<and> task_endTime t = JString REDACTED
     \<and> task_startTime t = JString REDACTED
     \<and> (case feedbackHistory t of Some h \<Rightarrow> list_all feedbackRedacted h | None \<Rightarrow> False)"

definition logRedacted :: "log \<Rightarrow> bool" where
  "logRedacted l \<longleftrightarrow>
     log_timestamp l = JString REDACTED
     \<and> (case log_agent l of Some a \<Rightarrow> agentRedacted a | None \<Rightarrow> True)
     \<and> (case log_task l of Some t \<Rightarrow> taskRedacted t | None \<Rightarrow> True)
     \<and> (case log_metadata l of
          Some md \<Rightarrow>
            metadata_duration md = JString REDACTED
            \<and> metadata_endTime md = JString REDACTED
            \<and> metadata_startTime md = JString REDACTED
            \<and> (case metadata_feedback md of Some f \<Rightarrow> feedbackRedacted f | None \<Rightarrow> True)
        | None \<Rightarrow> True)"

section \<open>Example teams\<close>

text \<open>Concrete tasks, agents and stores, on which the statements below are evaluated.\<close>

definition exampleAgent :: "string \<Rightarrow> agent" where
  "exampleAgent i =
     \<lparr> agent_id = i, agent_name = ''Agent '' @ i, agent_status = ''THINKING'',
       agent_env = JObject [(''OPENAI_API_KEY'', JString ''sk-secret'')],
       agent_llmConfig = Some \<lparr> provider = ''openai'', model = ''gpt-4o-mini'', apiKey = ''sk-secret'' \<rparr>,
       agentInstance =
         Some \<lparr> instance_id = i, instance_env = JObject [(''OPENAI_API_KEY'', JString ''sk-secret'')],
                instance_llmConfig = None, interactionsHistory = [''hello''],
                lastFeedbackMessage = None, currentIterations = 2 \<rparr> \<rparr>"

definition exampleTask :: "string \<Rightarrow> task_status \<Rightarrow> string list option \<Rightarrow> task" where
  "exampleTask i st deps =
     \<lparr> task_id = i, description = ''Do '' @ i, task_status = st, dependsOn = deps,
       task_agent = None, result = JUndefined, isDeliverable = False,
       allowParallelExecution = None, referenceId = None, feedbackHistory = None,
       task_duration = JUndefined, task_endTime = JUndefined, task_startTime = JUndefined,
       task_hooks = JUndefined, task_workflowInternalMemory = JUndefined,
       task_inputs = JUndefined, interpolatedTaskDescription = None \<rparr>"

definition exampleStore :: "workflow_status \<Rightarrow> agent list \<Rightarrow> task list \<Rightarrow> log list \<Rightarrow> store" where
  "exampleStore ws as ts ls =
     \<lparr> teamWorkflowStatus = ws, workflowResult = JNull, name = ''Team'', agents = as,
       tasks = ts, workflowLogs = ls, inputs = JObject [], workflowContext = [],
       workflowInternalMemory = JObject [], env = JObject [], logLevel = None,
       flowType = JUndefined, workflowExecutionStrategy = None,
       workflowController = JObject [], maxConcurrency = 5, managerWithLLM = False,
       taskQueue = None, hooks = JUndefined \<rparr>"

text \<open>The log of a task that completed with a result, as \<open>prepareNewLog\<close> shapes it.\<close>

definition exampleDoneLog :: "int \<Rightarrow> task \<Rightarrow> js_value \<Rightarrow> log" where
  "exampleDoneLog now t r =
     prepareNewLog now description None (Some (t\<lparr>task_status := DONE\<rparr>)) ''Task completed.''
       (Some (emptyMetadata\<lparr>metadata_result := r\<rparr>)) TaskStatusUpdate"

text \<open>
  A team at work: one agent, a task that is done (with its log), a task in progress, and a
  task that waits for validation.
\<close>

definition runningStore :: store where
  "runningStore =
     exampleStore WORKFLOW_RUNNING [exampleAgent ''1'']
       [(exampleTask ''A'' DONE None)\<lparr>task_agent := Some (exampleAgent ''1''),
           feedbackHistory :=
             Some [\<lparr> feedback_content = ''shorter'', feedback_status = PROCESSED,
                     feedback_timestamp = JNumber 3 \<rparr>]\<rparr>,
        exampleTask ''B'' DOING None,
        exampleTask ''V'' AWAITING_VALIDATION None]
       [exampleDoneLog 5 (exampleTask ''A'' DOING None) (JString ''ok'')]"

text \<open>
  Two tasks done before a third that is at work, with their logs; the second result is an
  array, for which \<open>exampleStringify\<close> stands in for \<^verbatim>\<open>JSON.stringify\<close>.
\<close>

definition contextStore :: store where
  "contextStore =
     exampleStore WORKFLOW_RUNNING []
       [exampleTask ''A'' DONE None, exampleTask ''B'' DONE None, exampleTask ''C'' DOING None] []"

definition contextLogs :: "log list" where
  "contextLogs =
     [exampleDoneLog 1 (exampleTask ''A'' DOING None) (JString ''ra''),
      exampleDoneLog 2 (exampleTask ''B'' DOING None) (JArray [])]"

definition exampleStringify :: "js_value \<Rightarrow> string" where
  "exampleStringify v = (case v of JNull \<Rightarrow> ''null'' | JArray _ \<Rightarrow> ''[]'' | _ \<Rightarrow> ''{}'')"

text \<open>A stand-in for \<^verbatim>\<open>Number.prototype.toString\<close> on examples without numbers.\<close>

definition exampleNumberToString :: "js_value \<Rightarrow> string" where
  "exampleNumberToString v = (case v of JOtherNumber NaN \<Rightarrow> ''NaN'' | _ \<Rightarrow> ''0'')"

text \<open>A sequence of four tasks, the second of which was sent back for revision.\<close>

definition sequenceTasks :: "task list" where
  "sequenceTasks =
     [exampleTask ''A'' DONE None, exampleTask ''B'' REVISE None,
      exampleTask ''C'' DONE None, exampleTask ''D'' DOING None]"











section \<open>Facts about the array helpers\<close>

lemma findIndex_None_iff: "findIndex p xs = None \<longleftrightarrow> (\<forall>x \<in> set xs. \<not> p x)"
  by (induction xs) (auto split: option.splits)

lemma findIndex_Some_D:
  "findIndex p xs = Some i \<Longrightarrow> i < length xs \<and> p (xs ! i) \<and> (\<forall>j < i. \<not> p (xs ! j))"
proof (induction xs arbitrary: i)
  case Nil
  then show ?case by simp
next
  case (Cons x xs)
  show ?case
  proof (cases "p x")
    case True
    with Cons.prems show ?thesis by simp
  next
    case False
    with Cons.prems obtain k where k: "findIndex p xs = Some k" "i = Suc k"
      by (auto split: option.splits)
    from Cons.IH[OF k(1)] False k(2) show ?thesis
      by (auto simp: nth_Cons split: nat.splits)
  qed
qed

section \<open>The status mutators\<close>

text \<open>
  Claim C3, as stated, has \<open>updateTaskStatus\<close> append a log entry for the transition. It
  does not: on a store with one task and no logs, the logs after the update are still
  empty.
\<close>

theorem updateTaskStatus_no_log_counterexample:
  "\<not> appends_one_log (exampleStore WORKFLOW_RUNNING [] [exampleTask ''A'' TODO None] [])
        (updateTaskStatus ''A'' DOING
           (exampleStore WORKFLOW_RUNNING [] [exampleTask ''A'' TODO None] []))"
  by (simp add: appends_one_log_def updateTaskStatus_def exampleStore_def)

text \<open>
  Claim C3, amended: \<open>updateTaskStatus taskId st\<close> is one update of the store that sets
  the status of every task whose id is \<open>taskId\<close> to \<open>st\<close> and changes no other field of
  these tasks; \<open>updateStatusOfMultipleTasks taskIds st\<close> does the same for the tasks whose
  id is listed. The tasks whose id is not given are unchanged, and so is every other field
  of the store, \<open>workflowLogs\<close> among them: no log entry is appended.
\<close>

theorem updateTaskStatus_sets_status_only:
  "length (tasks (updateTaskStatus taskId st s)) = length (tasks s)
   \<and> (\<forall>i < length (tasks s).
        tasks (updateTaskStatus taskId st s) ! i =
          (if task_id (tasks s ! i) = taskId then (tasks s ! i)\<lparr>task_status := st\<rparr>
           else tasks s ! i))
   \<and> workflowLogs (updateTaskStatus taskId st s) = workflowLogs s
   \<and> (updateTaskStatus taskId st s)\<lparr>tasks := tasks s\<rparr> = s
   \<and> length (tasks (updateStatusOfMultipleTasks taskIds st s)) = length (tasks s)
   \<and> (\<forall>i < length (tasks s).
        tasks (updateStatusOfMultipleTasks taskIds st s) ! i =
          (if task_id (tasks s ! i) \<in> set taskIds then (tasks s ! i)\<lparr>task_status := st\<rparr>
           else tasks s ! i))
   \<and> workflowLogs (updateStatusOfMultipleTasks taskIds st s) = workflowLogs s
   \<and> (updateStatusOfMultipleTasks taskIds st s)\<lparr>tasks := tasks s\<rparr> = s"
  by (simp add: updateTaskStatus_def updateStatusOfMultipleTasks_def)

theorem updateTaskStatus_sets_status_only_witness:
  "tasks (updateTaskStatus ''B'' DOING
            (exampleStore WORKFLOW_RUNNING []
               [exampleTask ''A'' DONE None, exampleTask ''B'' TODO None] [])) ! 1
     = exampleTask ''B'' DOING None
   \<and> tasks (updateStatusOfMultipleTasks [''B''] DOING
            (exampleStore WORKFLOW_RUNNING []
               [exampleTask ''A'' DONE None, exampleTask ''B'' TODO None] [])) ! 0
     = exampleTask ''A'' DONE None"
  using updateTaskStatus_sets_status_only
    [of "''B''" DOING
        "exampleStore WORKFLOW_RUNNING []
           [exampleTask ''A'' DONE None, exampleTask ''B'' TODO None] []" "[''B'']"]
  by (simp add: exampleStore_def exampleTask_def)

section \<open>Ready tasks under the hierarchical strategy\<close>

lemma dependencies_done_iff:
  "(let deps = getTaskDependencies t allTasks
    in length deps = 0 \<or> list_all (\<lambda>dep. task_status dep = DONE) deps)
   \<longleftrightarrow> (\<forall>d \<in> set allTasks.
          (case dependsOn t of None \<Rightarrow> False | Some ids \<Rightarrow> task_id d \<in> set ids)
          \<longrightarrow> task_status d = DONE)"
proof (cases "dependsOn t")
  case None
  then show ?thesis by (simp add: getTaskDependencies_def)
next
  case (Some ids)
  show ?thesis
  proof (cases "ids = []")
    case True
    with Some show ?thesis by (simp add: getTaskDependencies_def)
  next
    case False
    with Some show ?thesis
      by (auto simp: getTaskDependencies_def list_all_iff filter_empty_conv)
  qed
qed

lemma ready_test_iff:
  "(if task_status t \<noteq> TODO then False
    else (let deps = getTaskDependencies t allTasks
          in length deps = 0 \<or> list_all (\<lambda>dep. task_status dep = DONE) deps))
   \<longleftrightarrow> (task_status t = TODO
        \<and> (\<forall>d \<in> set allTasks.
              (case dependsOn t of None \<Rightarrow> False | Some ids \<Rightarrow> task_id d \<in> set ids)
              \<longrightarrow> task_status d = DONE))"
  using dependencies_done_iff by simp

text \<open>
  Claim C5: \<open>getReadyTasks\<close> selects, in list order, exactly the tasks whose status is
  \<open>TODO\<close> and for which every task of the list whose id occurs in their \<open>dependsOn\<close> is
  \<open>DONE\<close>; a task whose \<open>dependsOn\<close> is absent or empty is ready exactly when it is \<open>TODO\<close>.
\<close>

theorem getReadyTasks_iff:
  "getReadyTasks allTasks =
     filter (\<lambda>t. task_status t = TODO
                 \<and> (\<forall>d \<in> set allTasks.
                       (case dependsOn t of None \<Rightarrow> False | Some ids \<Rightarrow> task_id d \<in> set ids)
                       \<longrightarrow> task_status d = DONE)) allTasks
   \<and> (\<forall>t \<in> set allTasks.
        dependsOn t = None \<or> dependsOn t = Some [] \<longrightarrow>
        (t \<in> set (getReadyTasks allTasks) \<longleftrightarrow> task_status t = TODO))"
proof
  show first: "getReadyTasks allTasks =
     filter (\<lambda>t. task_status t = TODO
                 \<and> (\<forall>d \<in> set allTasks.
                       (case dependsOn t of None \<Rightarrow> False | Some ids \<Rightarrow> task_id d \<in> set ids)
                       \<longrightarrow> task_status d = DONE)) allTasks"
    unfolding getReadyTasks_def by (simp only: ready_test_iff)
  show "\<forall>t \<in> set allTasks.
        dependsOn t = None \<or> dependsOn t = Some [] \<longrightarrow>
        (t \<in> set (getReadyTasks allTasks) \<longleftrightarrow> task_status t = TODO)"
    unfolding first by auto
qed

theorem getReadyTasks_iff_witness:
  "getReadyTasks
     [exampleTask ''A'' DONE None, exampleTask ''B'' TODO (Some [''A'']),
      exampleTask ''C'' TODO (Some [''B'']), exampleTask ''D'' TODO (Some [])]
   = [exampleTask ''B'' TODO (Some [''A'']), exampleTask ''D'' TODO (Some [])]"
  using getReadyTasks_iff
    [of "[exampleTask ''A'' DONE None, exampleTask ''B'' TODO (Some [''A'']),
          exampleTask ''C'' TODO (Some [''B'']), exampleTask ''D'' TODO (Some [])]"]
  by (simp add: exampleTask_def)

section \<open>Feedback and validation\<close>

text \<open>
  Claim C10: \<open>provideFeedback\<close> with a task id that no task of the store has returns the
  store as it was: no feedback, no log, no status change, the same workflow status.
\<close>

theorem provideFeedback_unknown_task:
  "\<forall>t \<in> set (tasks s). task_id t \<noteq> taskId \<Longrightarrow>
   provideFeedback now1 now2 now3 getTaskTitleForLogs taskId content s = s"
  by (simp add: provideFeedback_def findIndex_None_iff[THEN iffD2])

theorem provideFeedback_unknown_task_witness:
  "provideFeedback 1 2 3 description ''Z'' ''redo''
     (exampleStore WORKFLOW_FINISHED [] [exampleTask ''A'' DONE None] [])
   = exampleStore WORKFLOW_FINISHED [] [exampleTask ''A'' DONE None] []"
proof -
  have "\<forall>t \<in> set (tasks (exampleStore WORKFLOW_FINISHED [] [exampleTask ''A'' DONE None] [])).
          task_id t \<noteq> ''Z''"
    by (simp add: exampleStore_def exampleTask_def)
  then show ?thesis by (rule provideFeedback_unknown_task)
qed

section \<open>Revision under the sequential strategy\<close>

lemma fold_updateTaskStatus:
  "fold (\<lambda>t. updateTaskStatus (task_id t) st) ts s =
     s\<lparr>tasks := map (\<lambda>u. if task_id u \<in> task_id ` set ts then u\<lparr>task_status := st\<rparr> else u)
                   (tasks s)\<rparr>"
proof (induction ts arbitrary: s)
  case Nil
  then show ?case by simp
next
  case (Cons t ts)
  have "fold (\<lambda>t. updateTaskStatus (task_id t) st) (t # ts) s
      = fold (\<lambda>t. updateTaskStatus (task_id t) st) ts (updateTaskStatus (task_id t) st s)"
    by simp
  also have "\<dots> = (updateTaskStatus (task_id t) st s)
      \<lparr>tasks := map (\<lambda>u. if task_id u \<in> task_id ` set ts then u\<lparr>task_status := st\<rparr> else u)
                  (tasks (updateTaskStatus (task_id t) st s))\<rparr>"
    by (rule Cons.IH)
  also have "\<dots> = s\<lparr>tasks :=
      map (\<lambda>u. if task_id u \<in> task_id ` set (t # ts) then u\<lparr>task_status := st\<rparr> else u)
        (tasks s)\<rparr>"
    by (auto simp: updateTaskStatus_def)
  finally show ?case .
qed

lemma distinct_map_nth_eq:
  "distinct (map f xs) \<Longrightarrow> i < length xs \<Longrightarrow> j < length xs \<Longrightarrow>
   f (xs ! i) = f (xs ! j) \<longleftrightarrow> i = j"
  using nth_eq_iff_index_eq[of "map f xs" i j] by simp

lemma findIndex_distinct:
  assumes "distinct (map f xs)" and "i < length xs"
  shows "findIndex (\<lambda>t. f t = f (xs ! i)) xs = Some i"
proof (cases "findIndex (\<lambda>t. f t = f (xs ! i)) xs")
  case None
  with assms(2) show ?thesis
    by (auto simp: findIndex_None_iff)
next
  case (Some k)
  from findIndex_Some_D[OF Some] have k: "k < length xs" "f (xs ! k) = f (xs ! i)"
    by auto
  with assms have "k = i"
    by (simp add: distinct_map_nth_eq)
  with Some show ?thesis by simp
qed

lemma in_image_drop_distinct:
  assumes "distinct (map f xs)" and "j < length xs"
  shows "f (xs ! j) \<in> f ` set (drop n xs) \<longleftrightarrow> n \<le> j"
proof
  assume "f (xs ! j) \<in> f ` set (drop n xs)"
  then obtain k where k: "k < length xs - n" "f (xs ! (n + k)) = f (xs ! j)"
    by (auto simp: in_set_conv_nth)
  with assms have "n + k < length xs"
    by auto
  with assms k have "n + k = j"
    by (simp add: distinct_map_nth_eq)
  then show "n \<le> j" by simp
next
  assume "n \<le> j"
  with assms(2) have "drop n xs ! (j - n) = xs ! j" "j - n < length (drop n xs)"
    by auto
  then have "xs ! j \<in> set (drop n xs)"
    by (metis nth_mem)
  then show "f (xs ! j) \<in> f ` set (drop n xs)" by simp
qed

text \<open>
  Claim C6: under the sequential strategy, when the task at index \<open>i\<close> of a list with
  unique ids is in \<open>REVISE\<close>, \<open>execute\<close> sets every task at an index \<open>j > i\<close> to \<open>TODO\<close>
  and then the revised task to \<open>DOING\<close>; the tasks before index \<open>i\<close> are unchanged, as
  is every other field of the store, and nothing is pushed to the queue.
\<close>

theorem sequential_revise:
  assumes "distinct (map task_id allTasks)"
    and "tasks s = allTasks"
    and "i < length allTasks"
    and "task_id changedTask = task_id (allTasks ! i)"
    and "task_status changedTask = REVISE"
  shows "length (tasks (fst (sequential_execute [changedTask] allTasks s))) = length allTasks
    \<and> (\<forall>j < length allTasks.
          tasks (fst (sequential_execute [changedTask] allTasks s)) ! j =
            (if i < j then (allTasks ! j)\<lparr>task_status := TODO\<rparr>
             else if j = i then (allTasks ! j)\<lparr>task_status := DOING\<rparr>
             else allTasks ! j))
    \<and> (fst (sequential_execute [changedTask] allTasks s))\<lparr>tasks := tasks s\<rparr> = s
    \<and> snd (sequential_execute [changedTask] allTasks s) = []"
proof -
  have idx: "findIndex (\<lambda>t. task_id t = task_id changedTask) allTasks = Some i"
    using findIndex_distinct[OF assms(1,3)] assms(4) by simp
  have res: "fst (sequential_execute [changedTask] allTasks s) =
      updateTaskStatus (task_id (allTasks ! i)) DOING
        (fold (\<lambda>t. updateTaskStatus (task_id t) TODO) (drop (Suc i) allTasks) s)"
    and eff: "snd (sequential_execute [changedTask] allTasks s) = []"
    using assms(4,5) idx by (simp_all add: sequential_execute_def)
  have nth: "tasks (fst (sequential_execute [changedTask] allTasks s)) ! j =
            (if i < j then (allTasks ! j)\<lparr>task_status := TODO\<rparr>
             else if j = i then (allTasks ! j)\<lparr>task_status := DOING\<rparr>
             else allTasks ! j)" if j: "j < length allTasks" for j
  proof -
    have a: "task_id (allTasks ! j) \<in> task_id ` set (drop (Suc i) allTasks) \<longleftrightarrow> Suc i \<le> j"
      by (rule in_image_drop_distinct[OF assms(1) j])
    have b: "task_id (allTasks ! j) = task_id (allTasks ! i) \<longleftrightarrow> j = i"
      using assms(1,3) j by (simp add: distinct_map_nth_eq)
    show ?thesis
      using j a b assms(2)
      by (auto simp: res fold_updateTaskStatus updateTaskStatus_def)
  qed
  have len: "length (tasks (fst (sequential_execute [changedTask] allTasks s))) = length allTasks"
    using assms(2) by (simp add: res fold_updateTaskStatus updateTaskStatus_def)
  have rest: "(fst (sequential_execute [changedTask] allTasks s))\<lparr>tasks := tasks s\<rparr> = s"
    by (simp add: res fold_updateTaskStatus updateTaskStatus_def)
  from len nth rest eff show ?thesis by blast
qed


theorem sequential_revise_witness:
  "map task_status
     (tasks (fst (sequential_execute [sequenceTasks ! 1] sequenceTasks
                    (exampleStore WORKFLOW_RUNNING [] sequenceTasks []))))
   = [DONE, DOING, TODO, TODO]"
proof -
  let ?s = "exampleStore WORKFLOW_RUNNING [] sequenceTasks []"
  have h1: "distinct (map task_id sequenceTasks)"
    by (simp add: sequenceTasks_def exampleTask_def)
  have h2: "tasks ?s = sequenceTasks" by (simp add: exampleStore_def)
  have h3: "1 < length sequenceTasks" by (simp add: sequenceTasks_def)
  have h4: "task_id (sequenceTasks ! 1) = task_id (sequenceTasks ! 1)" by simp
  have h5: "task_status (sequenceTasks ! 1) = REVISE"
    by (simp add: sequenceTasks_def exampleTask_def)
  have len: "length sequenceTasks = 4" by (simp add: sequenceTasks_def)
  from sequential_revise[OF h1 h2 h3 h4 h5]
  have l: "length (tasks (fst (sequential_execute [sequenceTasks ! 1] sequenceTasks ?s))) = 4"
    and n: "\<And>j. j < 4 \<Longrightarrow>
          tasks (fst (sequential_execute [sequenceTasks ! 1] sequenceTasks ?s)) ! j =
            (if 1 < j then (sequenceTasks ! j)\<lparr>task_status := TODO\<rparr>
             else if j = 1 then (sequenceTasks ! j)\<lparr>task_status := DOING\<rparr>
             else sequenceTasks ! j)"
    by (simp_all add: len)
  have "map task_status (tasks (fst (sequential_execute [sequenceTasks ! 1] sequenceTasks ?s)))
      = map task_status
          [sequenceTasks ! 0, (sequenceTasks ! 1)\<lparr>task_status := DOING\<rparr>,
           (sequenceTasks ! 2)\<lparr>task_status := TODO\<rparr>, (sequenceTasks ! 3)\<lparr>task_status := TODO\<rparr>]"
    using l n[of 0] n[of 1] n[of 2] n[of 3]
    by (intro arg_cong[where f = "map task_status"] nth_equalityI)
       (auto simp: nth_Cons less_Suc_eq numeral_2_eq_2 numeral_3_eq_3 split: nat.splits)
  then show ?thesis
    by (simp add: sequenceTasks_def exampleTask_def)
qed

section \<open>Starting the workflow\<close>

lemma resetAgents_total:
  "\<forall>a \<in> set as. agentInstance a \<noteq> None \<Longrightarrow>
   \<exists>as'. resetAgents as = Inr as' \<and> length as' = length as
         \<and> (\<forall>a' \<in> set as'. agent_status a' = ''INITIAL'')"
proof (induction as)
  case Nil
  then show ?case by simp
next
  case (Cons a as)
  then obtain as' where as': "resetAgents as = Inr as'" "length as' = length as"
      "\<forall>a' \<in> set as'. agent_status a' = ''INITIAL''"
    by auto
  from Cons.prems obtain i where "agentInstance a = Some i" by auto
  with as' show ?case
    by (simp add: resetAgent_def)
qed

text \<open>
  Claim C4, as stated, has a second \<open>startWorkflow\<close> fail while the workflow is
  \<open>RUNNING\<close> and leave the state alone. On a running team the call does not fail: the
  tasks that were \<open>DONE\<close>, \<open>DOING\<close> and \<open>AWAITING_VALIDATION\<close> are \<open>TODO\<close> afterwards, the
  log of the run is replaced by one new \<open>RUNNING\<close> log, and the strategy is started again.
\<close>

theorem startWorkflow_while_running_counterexample:
  "teamWorkflowStatus runningStore = WORKFLOW_RUNNING
   \<and> \<not> isl (startWorkflow (\<lambda>strategy state. 1) 9 JUndefined runningStore)
   \<and> map task_status (tasks runningStore) = [DONE, DOING, AWAITING_VALIDATION]
   \<and> map task_status
         (tasks (fst (projr (startWorkflow (\<lambda>strategy state. 1) 9 JUndefined runningStore))))
       = [TODO, TODO, TODO]
   \<and> map log_timestamp (workflowLogs runningStore) = [JNumber 5]
   \<and> map log_timestamp
         (workflowLogs (fst (projr (startWorkflow (\<lambda>strategy state. 1) 9 JUndefined runningStore))))
       = [JNumber 9]
   \<and> map workflowStatus
         (workflowLogs (fst (projr (startWorkflow (\<lambda>strategy state. 1) 9 JUndefined runningStore))))
       = [Some WORKFLOW_RUNNING]
   \<and> snd (projr (startWorkflow (\<lambda>strategy state. 1) 9 JUndefined runningStore))
       = [StartExecution DeterministicExecutionStrategy]"
  by (simp add: runningStore_def exampleStore_def exampleAgent_def exampleTask_def
      exampleDoneLog_def prepareNewLog_def startWorkflow_def resetWorkflowStateAction_def
      resetAgent_def createWorkflowExecutionStrategy_def workflowLog_def)

text \<open>
  Claim C4, amended: \<open>startWorkflow\<close> does not look at \<open>teamWorkflowStatus\<close>. In every
  state whose agents have an instance (the workflow \<open>RUNNING\<close> or not) it goes through:
  every task is reset to \<open>TODO\<close>, the logs are replaced by a single new \<open>RUNNING\<close> log
  stamped with the time of the call, the workflow result is cleared, the workflow status
  is \<open>RUNNING\<close>, and the strategy's execution is started.
\<close>

theorem startWorkflow_has_no_guard:
  assumes "\<forall>a \<in> set (agents s). agentInstance a \<noteq> None"
  shows "\<exists>s' l. startWorkflow getConcurrencyForTaskQueue now inputsArg s
             = Inr (s', [StartExecution (createWorkflowExecutionStrategy s)])
          \<and> tasks s' = map (\<lambda>t. t\<lparr>task_status := TODO\<rparr>) (tasks s)
          \<and> workflowLogs s' = [l]
          \<and> workflowStatus l = Some WORKFLOW_RUNNING
          \<and> logType l = WorkflowStatusUpdate
          \<and> log_timestamp l = JNumber now
          \<and> teamWorkflowStatus s' = WORKFLOW_RUNNING
          \<and> workflowResult s' = JNull"
proof -
  from resetAgents_total[OF assms] obtain as' where "resetAgents (agents s) = Inr as'"
    by blast
  then show ?thesis
    by (simp add: startWorkflow_def resetWorkflowStateAction_def Let_def setInputs_def
        createWorkflowExecutionStrategy_def workflowLog_def)
qed

theorem startWorkflow_has_no_guard_witness:
  "\<exists>s' l. startWorkflow (\<lambda>strategy state. 1) 9 JUndefined runningStore
             = Inr (s', [StartExecution (createWorkflowExecutionStrategy runningStore)])
          \<and> tasks s' = map (\<lambda>t. t\<lparr>task_status := TODO\<rparr>) (tasks runningStore)
          \<and> workflowLogs s' = [l]
          \<and> workflowStatus l = Some WORKFLOW_RUNNING
          \<and> logType l = WorkflowStatusUpdate
          \<and> log_timestamp l = JNumber 9
          \<and> teamWorkflowStatus s' = WORKFLOW_RUNNING
          \<and> workflowResult s' = JNull"
proof -
  have "\<forall>a \<in> set (agents runningStore). agentInstance a \<noteq> None"
    by (simp add: runningStore_def exampleStore_def exampleAgent_def)
  then show ?thesis by (rule startWorkflow_has_no_guard)
qed

section \<open>The cleaned snapshot is redacted\<close>

lemma llmConfigRedacted_clean: "llmConfigRedacted (cleanLlmConfig c)"
  by (simp add: llmConfigRedacted_def cleanLlmConfig_def split: option.splits)

lemma agentRedacted_clean: "agentRedacted (cleanAgent a)"
  by (simp add: agentRedacted_def cleanAgent_def llmConfigRedacted_clean split: option.splits)

lemma feedbackRedacted_clean: "feedbackRedacted (cleanFeedback f)"
  by (simp add: feedbackRedacted_def cleanFeedback_def)

lemma taskRedacted_clean: "taskRedacted (cleanTask t)"
  by (auto simp: taskRedacted_def cleanTask_def agentRedacted_clean feedbackRedacted_clean
      list_all_iff split: option.splits)

lemma logRedacted_clean: "logRedacted (cleanLog l)"
  by (simp add: logRedacted_def cleanLog_def cleanMetadata_def agentRedacted_clean
      taskRedacted_clean feedbackRedacted_clean split: option.splits)

text \<open>
  Claim C9: in the snapshot of \<open>getCleanedState\<close>, every agent, every task and every
  log is redacted: the \<open>id\<close>, \<open>env\<close> and \<open>llmConfig.apiKey\<close> of an agent and of its instance,
  the \<open>id\<close>, \<open>duration\<close>, \<open>startTime\<close>, \<open>endTime\<close> and feedback timestamps of a task, the
  timestamp of a log and the \<open>duration\<close>, \<open>startTime\<close>, \<open>endTime\<close> and feedback timestamp of
  its metadata are the sentinel, also in the agent of a task and in the agent and task of
  a log. The snapshot is the record of the nine fields; the six that are not lists of
  agents, tasks or logs are those of the store.
\<close>

theorem getCleanedState_redacted:
  "(\<forall>a \<in> set (cleaned_agents (getCleanedState s)). agentRedacted a)
   \<and> (\<forall>t \<in> set (cleaned_tasks (getCleanedState s)). taskRedacted t)
   \<and> (\<forall>l \<in> set (cleaned_workflowLogs (getCleanedState s)). logRedacted l)
   \<and> length (cleaned_agents (getCleanedState s)) = length (agents s)
   \<and> length (cleaned_tasks (getCleanedState s)) = length (tasks s)
   \<and> length (cleaned_workflowLogs (getCleanedState s)) = length (workflowLogs s)
   \<and> cleaned_teamWorkflowStatus (getCleanedState s) = teamWorkflowStatus s
   \<and> cleaned_workflowResult (getCleanedState s) = workflowResult s
   \<and> cleaned_name (getCleanedState s) = name s
   \<and> cleaned_inputs (getCleanedState s) = inputs s
   \<and> cleaned_workflowContext (getCleanedState s) = workflowContext s
   \<and> cleaned_logLevel (getCleanedState s) = logLevel s"
  by (simp add: getCleanedState_def agentRedacted_clean taskRedacted_clean logRedacted_clean)

theorem getCleanedState_redacted_witness:
  "map agent_id (cleaned_agents (getCleanedState runningStore)) = [''[REDACTED]'']
   \<and> map agent_env (cleaned_agents (getCleanedState runningStore)) = [JString ''[REDACTED]'']
   \<and> map (map_option apiKey \<circ> agent_llmConfig) (cleaned_agents (getCleanedState runningStore))
       = [Some ''[REDACTED]'']
   \<and> map task_id (cleaned_tasks (getCleanedState runningStore))
       = [''[REDACTED]'', ''[REDACTED]'', ''[REDACTED]'']
   \<and> map (map_option (map feedback_timestamp) \<circ> feedbackHistory)
        (cleaned_tasks (getCleanedState runningStore))
       = [Some [JString ''[REDACTED]''], Some [], Some []]
   \<and> map log_timestamp (cleaned_workflowLogs (getCleanedState runningStore))
       = [JString ''[REDACTED]'']
   \<and> list_all agentRedacted (cleaned_agents (getCleanedState runningStore))
   \<and> list_all taskRedacted (cleaned_tasks (getCleanedState runningStore))
   \<and> list_all logRedacted (cleaned_workflowLogs (getCleanedState runningStore))"
  using getCleanedState_redacted[of runningStore]
  by (simp add: list_all_iff getCleanedState_def runningStore_def exampleStore_def
      exampleAgent_def exampleTask_def exampleDoneLog_def prepareNewLog_def cleanAgent_def
      cleanTask_def cleanLog_def cleanFeedback_def cleanLlmConfig_def REDACTED_def)


section \<open>Validation of a task\<close>

text \<open>
  Claim C7: \<open>validateTask\<close> goes through only when the task with the given id is
  \<open>AWAITING_VALIDATION\<close>: the task is then \<open>VALIDATED\<close> in the store, the two logs (workflow
  \<open>RUNNING\<close>, task \<open>VALIDATED\<close>) are appended, the workflow is \<open>RUNNING\<close>, nothing else of the
  store changes, and \<open>handleTaskCompleted\<close> is called with the validated task and its
  result. When no task has the id, or the task is in another status, the call returns
  \<^verbatim>\<open>null\<close> and the store is unchanged.
\<close>

theorem validateTask_spec:
  "(case find (\<lambda>t. task_id t = taskId) (tasks s) of
      None \<Rightarrow> validateTask nowA nowB getTaskTitleForLogs taskId s = (JNull, s, [])
    | Some t \<Rightarrow>
        if task_status t \<noteq> AWAITING_VALIDATION
        then validateTask nowA nowB getTaskTitleForLogs taskId s = (JNull, s, [])
        else (\<exists>s' l1 l2.
                validateTask nowA nowB getTaskTitleForLogs taskId s
                  = (JUndefined, s',
                     [HandleTaskCompleted (task_agent t) (t\<lparr>task_status := VALIDATED\<rparr>) (result t)])
                \<and> tasks s' = map (\<lambda>u. if task_id u = taskId then t\<lparr>task_status := VALIDATED\<rparr> else u)
                               (tasks s)
                \<and> workflowLogs s' = workflowLogs s @ [l1, l2]
                \<and> logType l1 = WorkflowStatusUpdate \<and> workflowStatus l1 = Some WORKFLOW_RUNNING
                \<and> logType l2 = TaskStatusUpdate \<and> taskStatus l2 = Some (Known VALIDATED)
                \<and> log_task l2 = Some (t\<lparr>task_status := VALIDATED\<rparr>)
                \<and> teamWorkflowStatus s' = WORKFLOW_RUNNING
                \<and> s'\<lparr>tasks := tasks s, workflowLogs := workflowLogs s,
                       teamWorkflowStatus := teamWorkflowStatus s\<rparr> = s))"
  by (simp add: validateTask_def Let_def prepareNewLog_def workflowLog_def split: option.splits)

theorem validateTask_spec_witness:
  "fst (validateTask 10 11 description ''V'' runningStore) = JUndefined
   \<and> map task_status (tasks (fst (snd (validateTask 10 11 description ''V'' runningStore))))
       = [DONE, DOING, VALIDATED]
   \<and> validateTask 10 11 description ''B'' runningStore = (JNull, runningStore, [])
   \<and> validateTask 10 11 description ''Z'' runningStore = (JNull, runningStore, [])"
  using validateTask_spec[where taskId = "''V''" and s = runningStore and nowA = 10 and nowB = 11
      and getTaskTitleForLogs = description]
    validateTask_spec[where taskId = "''B''" and s = runningStore and nowA = 10 and nowB = 11
      and getTaskTitleForLogs = description]
    validateTask_spec[where taskId = "''Z''" and s = runningStore and nowA = 10 and nowB = 11
      and getTaskTitleForLogs = description]
  by (auto simp: runningStore_def exampleStore_def exampleTask_def)

section \<open>One run of execute under the hierarchical strategy\<close>

text \<open>
  The statements of this section are about the method \<^verbatim>\<open>execute\<close> of
  \<^verbatim>\<open>HierarchyExecutionStrategy\<close>, called with the task array of the store as \<open>allTasks\<close>.
  The store of these sources builds a \<^verbatim>\<open>DeterministicExecutionStrategy\<close> or a
  \<^verbatim>\<open>ManagerLLMStrategy\<close> (\<open>createWorkflowExecutionStrategy\<close>) and never this class; the
  dependency graph of its constructor is not read by \<^verbatim>\<open>execute\<close>.
\<close>

subsection \<open>Writes into a task object\<close>

lemma writeTask_storeRefs: "storeRefs (writeTask r f w) = storeRefs w"
  by (simp add: writeTask_def Let_def)

lemma writeTask_taskObjects:
  "taskObjects (writeTask r f w) = (taskObjects w)[r := f (taskObjects w ! r)]"
  by (simp add: writeTask_def Let_def)




lemma writeTask_frame:
  "(teamStore (writeTask r f w))\<lparr>tasks := X, workflowLogs := Y\<rparr>
     = (teamStore w)\<lparr>tasks := X, workflowLogs := Y\<rparr>"
  by (simp add: writeTask_def Let_def)

lemma writeTask_inputs: "inputs (teamStore (writeTask r f w)) = inputs (teamStore w)"
  by (simp add: writeTask_def Let_def)

text \<open>What a call of workOnTask leaves of the world.\<close>

lemma workOnTask_storeRefs:
  "workOnTask ext k agent r c w = (err, w', es) \<Longrightarrow> storeRefs w' = storeRefs w"
  by (auto simp: workOnTask_def Let_def writeTask_storeRefs split: option.splits if_splits)





lemma writeTask_nth_object:
  "r < length (taskObjects w) \<Longrightarrow> taskObjects (writeTask r f w) ! r = f (taskObjects w ! r)"
  by (simp add: writeTask_def Let_def)

lemma writeTask_object_field:
  assumes "\<And>t. g (f t) = g t"
  shows "g (taskObjects (writeTask r f w) ! q) = g (taskObjects w ! q)"
proof (cases "q = r \<and> r < length (taskObjects w)")
  case True
  then show ?thesis by (simp add: writeTask_nth_object assms)
next
  case False
  then show ?thesis
    by (auto simp: writeTask_def Let_def list_update_beyond not_less)
qed



lemma workOnTask_object_field:
  assumes "workOnTask ext k agent r c w = (err, w', es)"
    and "\<And>t st. g (t\<lparr>task_status := st\<rparr>) = g t"
    and "\<And>t i. g (t\<lparr>task_inputs := i\<rparr>) = g t"
    and "\<And>t d. g (t\<lparr>interpolatedTaskDescription := d\<rparr>) = g t"
  shows "g (taskObjects w' ! q) = g (taskObjects w ! q)"
  using assms(1)
  by (auto simp: workOnTask_def Let_def writeTask_object_field assms(2-4)
      split: option.splits if_splits)

lemma workOnTask_frame:
  assumes "workOnTask ext k agent r c w = (err, w', es)"
  shows "(teamStore w')\<lparr>tasks := X, workflowLogs := Y\<rparr>
     = (teamStore w)\<lparr>tasks := X, workflowLogs := Y\<rparr>"
  using assms writeTask_frame
  by (auto simp: workOnTask_def Let_def split: option.splits if_splits)






text \<open>A call of executeTask fails before the work, or is a call of workOnTask.\<close>

lemma executeTask_cases:
  assumes "executeTask ext k r w = (err, w', es)"
  obtains "w' = w" and "es = []"
  | agent where "workOnTask ext k agent r JUndefined w = (err, w', es)"
  using assms
  by (auto simp: executeTask_def Let_def split: sum.splits if_splits)

lemma executeTask_storeRefs:
  "executeTask ext k r w = (err, w', es) \<Longrightarrow> storeRefs w' = storeRefs w"
  by (erule executeTask_cases) (auto dest: workOnTask_storeRefs)





lemma executeTask_object_field:
  assumes "executeTask ext k r w = (err, w', es)"
    and "\<And>t st. g (t\<lparr>task_status := st\<rparr>) = g t"
    and "\<And>t i. g (t\<lparr>task_inputs := i\<rparr>) = g t"
    and "\<And>t d. g (t\<lparr>interpolatedTaskDescription := d\<rparr>) = g t"
  shows "g (taskObjects w' ! q) = g (taskObjects w ! q)"
  using assms(1)
proof (cases rule: executeTask_cases)
  case 1
  then show ?thesis by simp
next
  case (2 agent)
  then show ?thesis by (rule workOnTask_object_field) (rule assms(2-4))+
qed

lemma executeTask_frame:
  "executeTask ext k r w = (err, w', es) \<Longrightarrow>
   (teamStore w')\<lparr>tasks := X, workflowLogs := Y\<rparr> = (teamStore w)\<lparr>tasks := X, workflowLogs := Y\<rparr>"
  by (erule executeTask_cases) (auto dest: workOnTask_frame)






lemma start_tasks_Cons:
  "executeTask ext k r w = (err, w1, es1) \<Longrightarrow>
   hierarchy_start_tasks ext (r # rs) k w es0 =
     hierarchy_start_tasks ext rs (Suc k) w1 (es0 @ es1 @ rejection err)"
  by simp

lemma start_tasks_storeRefs:
  "hierarchy_start_tasks ext rs k w es0 = (w', es') \<Longrightarrow> storeRefs w' = storeRefs w"
proof (induction rs arbitrary: k w es0)
  case Nil
  then show ?case by simp
next
  case (Cons r rs)
  obtain err w1 es1 where step: "executeTask ext k r w = (err, w1, es1)"
    by (cases "executeTask ext k r w") auto
  from Cons.prems have "hierarchy_start_tasks ext rs (Suc k) w1 (es0 @ es1 @ rejection err) = (w', es')"
    by (simp only: start_tasks_Cons[OF step])
  then have "storeRefs w' = storeRefs w1" by (rule Cons.IH)
  with executeTask_storeRefs[OF step] show ?case by simp
qed




lemma start_tasks_object_field:
  assumes "hierarchy_start_tasks ext rs k w es0 = (w', es')"
    and g: "\<And>t st. g (t\<lparr>task_status := st\<rparr>) = g t" "\<And>t i. g (t\<lparr>task_inputs := i\<rparr>) = g t"
      "\<And>t d. g (t\<lparr>interpolatedTaskDescription := d\<rparr>) = g t"
  shows "g (taskObjects w' ! q) = g (taskObjects w ! q)"
  using assms(1)
proof (induction rs arbitrary: k w es0)
  case Nil
  then show ?case by simp
next
  case (Cons r rs)
  obtain err w1 es1 where step: "executeTask ext k r w = (err, w1, es1)"
    by (cases "executeTask ext k r w") auto
  from Cons.prems(1) have rec:
    "hierarchy_start_tasks ext rs (Suc k) w1 (es0 @ es1 @ rejection err) = (w', es')"
    by (simp only: start_tasks_Cons[OF step])
  have "g (taskObjects w' ! q) = g (taskObjects w1 ! q)"
    by (rule Cons.IH[OF rec])
  moreover have "g (taskObjects w1 ! q) = g (taskObjects w ! q)"
    by (rule executeTask_object_field[OF step]) (rule g)+
  ultimately show ?case by simp
qed

lemma start_tasks_frame:
  "hierarchy_start_tasks ext rs k w es0 = (w', es') \<Longrightarrow>
   (teamStore w')\<lparr>tasks := X, workflowLogs := Y\<rparr> = (teamStore w)\<lparr>tasks := X, workflowLogs := Y\<rparr>"
proof (induction rs arbitrary: k w es0)
  case Nil
  then show ?case by simp
next
  case (Cons r rs)
  obtain err w1 es1 where step: "executeTask ext k r w = (err, w1, es1)"
    by (cases "executeTask ext k r w") auto
  from Cons.prems(1) have rec:
    "hierarchy_start_tasks ext rs (Suc k) w1 (es0 @ es1 @ rejection err) = (w', es')"
    by (simp only: start_tasks_Cons[OF step])
  from Cons.IH[OF rec] executeTask_frame[OF step] show ?case by simp
qed











subsection \<open>Dispatch of the ready tasks\<close>




subsection \<open>A task sent back for revision\<close>




section \<open>The context derived from the logs\<close>

lemma map_of_map_set: "map_of (map_set k v m) = (map_of m)(k \<mapsto> v)"
  by (induction m) (auto simp: fun_eq_iff)

lemma keys_map_set: "set (map fst (map_set k v m)) = insert k (set (map fst m))"
proof (induction m)
  case Nil
  then show ?case by simp
next
  case (Cons p m)
  obtain k' v' where p: "p = (k', v')" by (cases p)
  show ?case
  proof (cases "k' = k")
    case True
    then show ?thesis unfolding p by simp
  next
    case False
    have "set (map fst (map_set k v ((k', v') # m))) = insert k' (set (map fst (map_set k v m)))"
      using False by simp
    also have "\<dots> = insert k' (insert k (set (map fst m)))"
      by (simp only: Cons.IH)
    also have "\<dots> = insert k (set (map fst ((k', v') # m)))"
      by (simp add: insert_commute)
    finally show ?thesis unfolding p .
  qed
qed

lemma distinct_map_set: "distinct (map fst m) \<Longrightarrow> distinct (map fst (map_set k v m))"
proof (induction m)
  case Nil
  then show ?case by simp
next
  case (Cons p m)
  obtain k' v' where p: "p = (k', v')" by (cases p)
  from Cons keys_map_set[of k v m] show ?case
    unfolding p by (cases "k' = k") auto
qed

lemma collectTaskResults_map_of:
  assumes "wellFormedLogs logs" and "distinct (map fst acc)"
  shows "\<exists>m. collectTaskResults ts ci logs acc = Inr m \<and> distinct (map fst m)
     \<and> (\<forall>key. map_of m key =
           (if precedes ts ci key \<and> list_ex (isDoneLogOf key) logs
            then Some (latestDoneEntry ts logs key) else map_of acc key))"
  using assms
proof (induction logs arbitrary: acc)
  case Nil
  then show ?case by simp
next
  case (Cons l logs)
  from Cons.prems(1) have wf: "wellFormedLogs logs"
    by (simp add: wellFormedLogs_def)
  show ?case
  proof (cases "logType l = TaskStatusUpdate \<and> taskStatus l = Some (Known DONE)")
    case False
    then have no: "\<And>key. \<not> isDoneLogOf key l"
      by (auto simp: isDoneLogOf_def)
    have step: "collectTaskResults ts ci (l # logs) acc = collectTaskResults ts ci logs acc"
      using False by auto
    from Cons.IH[OF wf Cons.prems(2)] obtain m where
      m: "collectTaskResults ts ci logs acc = Inr m" "distinct (map fst m)"
      "\<And>key. map_of m key =
         (if precedes ts ci key \<and> list_ex (isDoneLogOf key) logs
          then Some (latestDoneEntry ts logs key) else map_of acc key)"
      by blast
    have "map_of m key =
         (if precedes ts ci key \<and> list_ex (isDoneLogOf key) (l # logs)
          then Some (latestDoneEntry ts (l # logs) key) else map_of acc key)" for key
      using no m(3)[of key] by (simp add: latestDoneEntry_def)
    with m(1,2) show ?thesis
      unfolding step by blast
  next
    case True
    with Cons.prems(1) obtain lt md where lt: "log_task l = Some lt" and md: "log_metadata l = Some md"
      by (auto simp: wellFormedLogs_def)
    have isdone: "\<And>key. isDoneLogOf key l \<longleftrightarrow> key = task_id lt"
      using True lt by (auto simp: isDoneLogOf_def)
    show ?thesis
    proof (cases "precedes ts ci (task_id lt)")
      case False
      then have step: "collectTaskResults ts ci (l # logs) acc = collectTaskResults ts ci logs acc"
        using True lt by (auto simp: precedes_def split: option.splits)
      from Cons.IH[OF wf Cons.prems(2)] obtain m where
        m: "collectTaskResults ts ci logs acc = Inr m" "distinct (map fst m)"
        "\<And>key. map_of m key =
           (if precedes ts ci key \<and> list_ex (isDoneLogOf key) logs
            then Some (latestDoneEntry ts logs key) else map_of acc key)"
        by blast
      have "map_of m key =
           (if precedes ts ci key \<and> list_ex (isDoneLogOf key) (l # logs)
            then Some (latestDoneEntry ts (l # logs) key) else map_of acc key)" for key
      proof (cases "key = task_id lt")
        case True
        with False m(3)[of key] show ?thesis by simp
      next
        case False
        with isdone m(3)[of key] show ?thesis by (simp add: latestDoneEntry_def)
      qed
      with m(1,2) show ?thesis
        unfolding step by blast
    next
      case prec: True
      then obtain k where k: "findIndex (\<lambda>task. task_id task = task_id lt) ts = Some k" "k < ci"
        by (auto simp: precedes_def split: option.splits)
      let ?e = "\<lparr> taskDescription = description lt, entry_result = metadata_result md,
                   entry_index = k \<rparr>"
      let ?acc = "map_set (task_id lt) ?e acc"
      have step: "collectTaskResults ts ci (l # logs) acc = collectTaskResults ts ci logs ?acc"
        using True lt md k by simp
      have e: "?e = entryOfLog k l"
        using lt md by (simp add: entryOfLog_def)
      from Cons.IH[OF wf distinct_map_set[OF Cons.prems(2)], of "task_id lt" ?e] obtain m where
        m: "collectTaskResults ts ci logs ?acc = Inr m" "distinct (map fst m)"
        "\<And>key. map_of m key =
           (if precedes ts ci key \<and> list_ex (isDoneLogOf key) logs
            then Some (latestDoneEntry ts logs key) else map_of ?acc key)"
        by blast
      have "map_of m key =
           (if precedes ts ci key \<and> list_ex (isDoneLogOf key) (l # logs)
            then Some (latestDoneEntry ts (l # logs) key) else map_of acc key)" for key
      proof (cases "key = task_id lt")
        case eq: True
        show ?thesis
        proof (cases "list_ex (isDoneLogOf key) logs")
          case True
          then have "filter (isDoneLogOf key) logs \<noteq> []"
            by (auto simp: list_ex_iff filter_empty_conv)
          then have "latestDoneEntry ts (l # logs) key = latestDoneEntry ts logs key"
            by (simp add: latestDoneEntry_def)
          with True prec eq m(3)[of key] show ?thesis by simp
        next
          case False
          then have "filter (isDoneLogOf key) logs = []"
            by (auto simp: list_ex_iff filter_empty_conv)
          then have "latestDoneEntry ts (l # logs) key = entryOfLog k l"
            using eq isdone k by (simp add: latestDoneEntry_def)
          with False prec eq isdone m(3)[of key] e show ?thesis
            by (simp add: map_of_map_set)
        qed
      next
        case False
        with isdone m(3)[of key] show ?thesis
          by (simp add: latestDoneEntry_def map_of_map_set)
      qed
      with m(1,2) show ?thesis
        unfolding step by blast
    qed
  qed
qed


lemma latestDoneEntry_at_index:
  assumes "findIndex (\<lambda>task. task_id task = key) ts = Some k"
  shows "latestDoneEntry ts logs key = latestEntry logs ts k"
    and "entry_index (latestDoneEntry ts logs key) = k"
    and "task_id (ts ! k) = key"
  using assms findIndex_Some_D[OF assms]
  by (simp_all add: latestDoneEntry_def latestEntry_def entryOfLog_def)

lemma distinct_map_sort_key: "distinct (map f (sort_key f xs)) = distinct (map f xs)"
  by (simp add: distinct_map)

lemma sort_key_eq_map_filter:
  fixes f :: "'a \<Rightarrow> nat"
  assumes "distinct (map f xs)" and "f ` set xs = {k. k < n \<and> P k}"
    and "\<And>x. x \<in> set xs \<Longrightarrow> g (f x) = x"
  shows "sort_key f xs = map g (filter P [0..<n])"
proof -
  have "distinct (map f (sort_key f xs))"
    using assms(1) by (simp only: distinct_map_sort_key)
  moreover have "sorted (map f (sort_key f xs))"
    by simp
  moreover have "set (map f (sort_key f xs)) = {k. k < n \<and> P k}"
    using assms(2) by simp
  moreover have "sorted (filter P [0..<n])" "distinct (filter P [0..<n])"
    "set (filter P [0..<n]) = {k. k < n \<and> P k}"
    by (auto intro: sorted_wrt_filter)
  ultimately have idx: "map f (sort_key f xs) = filter P [0..<n]"
    by (intro sorted_distinct_set_unique) simp_all
  have "map (\<lambda>x. g (f x)) (sort_key f xs) = sort_key f xs"
    by (rule map_idI) (simp add: assms(3))
  then have "map g (map f (sort_key f xs)) = sort_key f xs"
    by (simp add: comp_def)
  with idx show ?thesis by simp
qed

lemma sorted_entries:
  assumes m: "distinct (map fst m)"
    and map_of: "\<And>key. map_of m key =
           (if precedes ts i key \<and> list_ex (isDoneLogOf key) logs
            then Some (latestDoneEntry ts logs key) else None)"
    and ids: "distinct (map task_id ts)" and i: "i \<le> length ts"
  shows "sort_key entry_index (map snd m) =
     map (latestEntry logs ts) (filter (\<lambda>k. reachedDone logs (ts ! k)) [0..<i])"
proof -
  let ?P = "\<lambda>k. reachedDone logs (ts ! k)"
  let ?G = "latestEntry logs ts"
  define vs where "vs = map snd m"
  have pair: "entry_index v < i \<and> ?P (entry_index v) \<and> v = ?G (entry_index v)
        \<and> key = task_id (ts ! entry_index v)"
    if "(key, v) \<in> set m" for key v
  proof -
    from that m have "map_of m key = Some v" by simp
    with map_of[of key] have prec: "precedes ts i key" and ex: "list_ex (isDoneLogOf key) logs"
      and v: "v = latestDoneEntry ts logs key"
      by (auto split: if_splits)
    from prec obtain k where k: "findIndex (\<lambda>task. task_id task = key) ts = Some k" "k < i"
      by (auto simp: precedes_def split: option.splits)
    from latestDoneEntry_at_index(1,2)[OF k(1), of logs] latestDoneEntry_at_index(3)[OF k(1)]
      v k(2) ex show ?thesis
      by (simp add: reachedDone_def)
  qed
  have vs: "entry_index v < i \<and> ?P (entry_index v) \<and> ?G (entry_index v) = v"
    if "v \<in> set vs" for v
    using that pair unfolding vs_def by force
  have set_idx: "entry_index ` set vs = {k. k < i \<and> ?P k}"
  proof (intro set_eqI iffI)
    fix k assume "k \<in> entry_index ` set vs"
    with vs show "k \<in> {k. k < i \<and> ?P k}" by auto
  next
    fix k assume "k \<in> {k. k < i \<and> ?P k}"
    then have k: "k < i" "?P k" by auto
    with i have kl: "k < length ts" by simp
    let ?key = "task_id (ts ! k)"
    have f: "findIndex (\<lambda>task. task_id task = ?key) ts = Some k"
      by (rule findIndex_distinct[OF ids kl])
    with k have "map_of m ?key = Some (latestDoneEntry ts logs ?key)"
      by (simp add: map_of precedes_def reachedDone_def)
    then have "(?key, latestDoneEntry ts logs ?key) \<in> set m"
      by (rule map_of_SomeD)
    then have "latestDoneEntry ts logs ?key \<in> set vs"
      unfolding vs_def by force
    moreover have "entry_index (latestDoneEntry ts logs ?key) = k"
      by (rule latestDoneEntry_at_index(2)[OF f])
    ultimately show "k \<in> entry_index ` set vs"
      by force
  qed
  have dist_idx: "distinct (map entry_index vs)"
  proof -
    have "map fst m = map (\<lambda>k. task_id (ts ! k)) (map entry_index vs)"
      unfolding vs_def using pair by auto
    with m have "distinct (map (\<lambda>k. task_id (ts ! k)) (map entry_index vs))"
      by simp
    then show ?thesis
      by (simp only: distinct_map)
  qed
  from dist_idx set_idx vs have "sort_key entry_index vs = map ?G (filter ?P [0..<i])"
    by (intro sort_key_eq_map_filter) simp_all
  then show ?thesis
    unfolding vs_def .
qed

text \<open>
  The entry the code renders for a task is the entry text of the claim: the description
  and the result of the latest \<open>DONE\<close> log of the task.
\<close>

lemma resultText_code:
  "(if typeof_object v then stringify v else primitiveToString numberToString v)
     = resultText numberToString stringify v"
proof (cases v)
  case (JBoolean b)
  then show ?thesis by (cases b) simp_all
qed simp_all

lemma renderEntry_latestEntry:
  "renderEntry numberToString stringify (latestEntry logs ts k) =
     entryText (loggedDescription (latestDoneLog logs (task_id (ts ! k))))
       (resultText numberToString stringify (loggedResult (latestDoneLog logs (task_id (ts ! k)))))"
  unfolding renderEntry_def resultText_code
  by (simp add: latestEntry_def entryOfLog_def latestDoneLog_def loggedDescription_def
      loggedResult_def entryText_def)

text \<open>
  Claim C8, as stated, has the context be the concatenation of the entries. With two
  tasks done before the current one, the context of the code has a line feed more than
  the concatenation: the separator that \<^verbatim>\<open>join\<close> puts between the two entries.
\<close>

theorem deriveContextFromLogs_concat_counterexample:
  "deriveContextFromLogs exampleNumberToString exampleStringify contextLogs ''C'' contextStore
     = Inr (''Task: Do A'' @ [CHR 0x0A] @ ''Result: ra'' @ [CHR 0x0A] @ [CHR 0x0A]
            @ ''Task: Do B'' @ [CHR 0x0A] @ ''Result: []'' @ [CHR 0x0A])
   \<and> concat (contextEntries exampleNumberToString exampleStringify contextLogs
               (tasks contextStore) 2)
     = ''Task: Do A'' @ [CHR 0x0A] @ ''Result: ra'' @ [CHR 0x0A]
       @ ''Task: Do B'' @ [CHR 0x0A] @ ''Result: []'' @ [CHR 0x0A]
   \<and> deriveContextFromLogs exampleNumberToString exampleStringify contextLogs ''C'' contextStore
     \<noteq> Inr (concat (contextEntries exampleNumberToString exampleStringify contextLogs
                      (tasks contextStore) 2))"
  by code_simp

text \<open>
  Claim C8, amended: for a store with unique task ids, logs in which every \<open>DONE\<close> log
  of a task carries its task and metadata, and the current task at index \<open>i\<close>, the derived
  context is, in declaration order, one entry \<^verbatim>\<open>Task: {description}\nResult: {result}\n\<close>
  for every task that reached \<open>DONE\<close> and precedes the current task, the entries joined
  with one line feed between two consecutive entries. Description and result are those of
  the latest \<open>DONE\<close> log of the task; a result that is an object is serialized as JSON, a
  string stands as it is, and a number reads as \<^verbatim>\<open>Number.prototype.toString\<close> prints it;
  the tasks at or after the current task and the tasks never \<open>DONE\<close> contribute nothing.
\<close>

theorem deriveContextFromLogs_joins_entries:
  assumes "distinct (map task_id (tasks s))"
    and "wellFormedLogs logs"
    and "i < length (tasks s)"
    and "currentTaskId = task_id (tasks s ! i)"
  shows "deriveContextFromLogs numberToString stringify logs currentTaskId s =
     Inr (join [CHR 0x0A] (contextEntries numberToString stringify logs (tasks s) i))"
proof -
  have idx: "findIndex (\<lambda>task. task_id task = currentTaskId) (tasks s) = Some i"
    using findIndex_distinct[OF assms(1,3)] assms(4) by simp
  from collectTaskResults_map_of[OF assms(2), of "[]" "tasks s" i] obtain m where
    m: "collectTaskResults (tasks s) i logs [] = Inr m" "distinct (map fst m)"
      "\<And>key. map_of m key =
           (if precedes (tasks s) i key \<and> list_ex (isDoneLogOf key) logs
            then Some (latestDoneEntry (tasks s) logs key) else None)"
    by auto
  have "sort_key entry_index (map snd m) =
     map (latestEntry logs (tasks s)) (filter (\<lambda>k. reachedDone logs (tasks s ! k)) [0..<i])"
    using m(2,3) assms(1,3) by (intro sorted_entries) simp_all
  then have "map (renderEntry numberToString stringify) (sort_key entry_index (map snd m))
      = contextEntries numberToString stringify logs (tasks s) i"
    by (simp add: contextEntries_def comp_def renderEntry_latestEntry)
  then show ?thesis
    by (simp add: deriveContextFromLogs_def idx m(1))
qed

theorem deriveContextFromLogs_joins_entries_witness:
  "deriveContextFromLogs exampleNumberToString exampleStringify contextLogs ''C'' contextStore
     = Inr (join [CHR 0x0A]
              (contextEntries exampleNumberToString exampleStringify contextLogs
                 (tasks contextStore) 2))
   \<and> contextEntries exampleNumberToString exampleStringify contextLogs (tasks contextStore) 2
     = [''Task: Do A'' @ [CHR 0x0A] @ ''Result: ra'' @ [CHR 0x0A],
        ''Task: Do B'' @ [CHR 0x0A] @ ''Result: []'' @ [CHR 0x0A]]"
proof
  have h1: "distinct (map task_id (tasks contextStore))"
    by (simp add: contextStore_def exampleStore_def exampleTask_def)
  have h2: "wellFormedLogs contextLogs"
    by (simp add: wellFormedLogs_def contextLogs_def exampleDoneLog_def prepareNewLog_def)
  have h3: "2 < length (tasks contextStore)"
    by (simp add: contextStore_def exampleStore_def)
  have h4: "''C'' = task_id (tasks contextStore ! 2)"
    by (simp add: contextStore_def exampleStore_def exampleTask_def)
  show "deriveContextFromLogs exampleNumberToString exampleStringify contextLogs ''C'' contextStore
     = Inr (join [CHR 0x0A]
              (contextEntries exampleNumberToString exampleStringify contextLogs
                 (tasks contextStore) 2))"
    by (rule deriveContextFromLogs_joins_entries[OF h1 h2 h3 h4])
  show "contextEntries exampleNumberToString exampleStringify contextLogs (tasks contextStore) 2
     = [''Task: Do A'' @ [CHR 0x0A] @ ''Result: ra'' @ [CHR 0x0A],
        ''Task: Do B'' @ [CHR 0x0A] @ ''Result: []'' @ [CHR 0x0A]]"
    by code_simp
qed

end
